theory Spec2Isabelle
  imports Complex_Main "HOL-Library.AList"
begin

section \<open>PYQ retriever service: data model\<close>

text \<open>
  The development follows \<^verbatim>\<open>src/app/pyq_retriever_service.py\<close>, class
  \<^verbatim>\<open>PYQRetrieverService\<close>. Python dictionaries whose keys may be absent are records
  of optional fields (\<open>None\<close> is "key absent"); dictionaries that the code iterates over
  are association lists in insertion order; dictionaries that are only looked up are maps.
  Python integers are \<open>int\<close>, Python's true division \<^verbatim>\<open>/\<close> is division on \<open>real\<close>.
  Python strings are modelled by \<open>string\<close>, for texts of characters below U+0100.
\<close>

subsection \<open>Strings: \<^verbatim>\<open>str.strip()\<close>, \<^verbatim>\<open>str.lower()\<close>, \<^verbatim>\<open>str(None)\<close>\<close>

text \<open>
  A \<open>char\<close> is the code point of a character, below 256: the model covers the Python
  strings of such characters (Latin-1). On them \<^verbatim>\<open>str.strip()\<close> removes, at both
  ends, the characters \<^verbatim>\<open>str.isspace\<close> accepts, which are TAB, LF, VT, FF, CR, FS,
  GS, RS, US, SPACE, NEL (U+0085) and NBSP (U+00A0); \<^verbatim>\<open>str.lower()\<close> moves the
  capitals A to Z, U+00C0 to U+00D6 and U+00D8 to U+00DE up by 32, character by
  character, and leaves every other character as it is.
\<close>

definition py_isspace :: "char \<Rightarrow> bool" where
  "py_isspace c =
     (let n = (of_char c :: nat)
      in (9 \<le> n \<and> n \<le> 13) \<or> (28 \<le> n \<and> n \<le> 32) \<or> n = 133 \<or> n = 160)"

definition is_upper :: "char \<Rightarrow> bool" where
  "is_upper c =
     (let n = (of_char c :: nat)
      in (65 \<le> n \<and> n \<le> 90) \<or> (192 \<le> n \<and> n \<le> 214) \<or> (216 \<le> n \<and> n \<le> 222))"

definition py_lower_char :: "char \<Rightarrow> char" where
  "py_lower_char c = (if is_upper c then char_of ((of_char c :: nat) + 32) else c)"

definition py_lower :: "string \<Rightarrow> string" where
  "py_lower s = map py_lower_char s"

definition py_strip :: "string \<Rightarrow> string" where
  "py_strip s = rev (dropWhile py_isspace (rev (dropWhile py_isspace s)))"

definition py_str :: "string option \<Rightarrow> string" where
  \<comment> \<open>\<^verbatim>\<open>str(x)\<close> for a value that is a string or \<^verbatim>\<open>None\<close>\<close>
  "py_str v = (case v of None \<Rightarrow> ''None'' | Some s \<Rightarrow> s)"

subsection \<open>\<^verbatim>\<open>_check_answer\<close>\<close>

definition check_answer :: "string option \<Rightarrow> string \<Rightarrow> bool" where
  "check_answer correct_answer user_answer =
     (py_lower (py_strip (py_str correct_answer)) = py_lower (py_strip user_answer))"

subsection \<open>What grading is measured against\<close>

text \<open>
  The whitespace characters and the pairs of a capital and its small letter, listed on
  their own, apart from the functions above.
\<close>

definition is_whitespace :: "char \<Rightarrow> bool" where
  "is_whitespace c =
     ((of_char c :: nat) \<in> set [9, 10, 11, 12, 13, 28, 29, 30, 31, 32, 133, 160])"

definition capital_code :: "nat \<Rightarrow> bool" where
  \<comment> \<open>the code points of A to Z, of U+00C0 to U+00D6 and of U+00D8 to U+00DE\<close>
  "capital_code n = (n \<in> set ([65..<91] @ [192..<215] @ [216..<223]))"

definition case_pair :: "char \<Rightarrow> char \<Rightarrow> bool" where
  \<comment> \<open>\<open>x\<close> is a capital and \<open>y\<close> its small letter\<close>
  "case_pair x y = (capital_code (of_char x) \<and> (of_char y :: nat) = of_char x + 32)"

definition same_letter :: "char \<Rightarrow> char \<Rightarrow> bool" where
  "same_letter x y = (x = y \<or> case_pair x y \<or> case_pair y x)"

text \<open>The string \<open>m\<close> is \<open>s\<close> without its surrounding whitespace.\<close>

definition trimmed :: "string \<Rightarrow> string \<Rightarrow> bool" where
  "trimmed s m =
     ((\<exists>l r. s = l @ m @ r \<and> list_all is_whitespace l \<and> list_all is_whitespace r) \<and>
      (m = [] \<or> (\<not> is_whitespace (hd m) \<and> \<not> is_whitespace (last m))))"

text \<open>
  Two answers differ only in surrounding whitespace or in the case of letters that have
  a small letter of their own: with a run of whitespace taken from both ends of each,
  the two cores have the same length and agree position by position up to such a pair.
\<close>

definition differ_only_case_ws :: "string \<Rightarrow> string \<Rightarrow> bool" where
  "differ_only_case_ws a b =
     (\<exists>l r l' r' m m'. a = l @ m @ r \<and> b = l' @ m' @ r' \<and>
        list_all is_whitespace l \<and> list_all is_whitespace r \<and>
        list_all is_whitespace l' \<and> list_all is_whitespace r' \<and>
        list_all2 same_letter m m')"

text \<open>
  \<^verbatim>\<open>str.casefold()\<close> on the same strings, as a list of code points: it is
  \<^verbatim>\<open>str.lower()\<close> but for the sharp s (U+00DF), which it turns into "ss", and
  the micro sign (U+00B5), which it turns into the Greek small mu (U+03BC).
\<close>

definition py_casefold_char :: "char \<Rightarrow> nat list" where
  "py_casefold_char c =
     (let n = (of_char c :: nat)
      in if n = 223 then [115, 115]
         else if n = 181 then [956]
         else if capital_code n then [n + 32]
         else [n])"

definition py_casefold :: "string \<Rightarrow> nat list" where
  "py_casefold s = concat (map py_casefold_char s)"

text \<open>The word "strasse" written with a sharp s, whose capital form is "STRASSE".\<close>

definition strasse_sharp_s :: string where
  "strasse_sharp_s = ''stra'' @ [CHR 0xDF] @ ''e''"

subsection \<open>Errors, store replies and results\<close>

datatype py_error = IndexError | KeyError | TypeError | ValueError

text \<open>
  The durable store (the Supabase client) and the fallback question provider are
  outside the engine. What one of their calls answers is an input of the operation that
  makes the call: either the call raises (with the exception's text) or it returns its
  \<^verbatim>\<open>.data\<close>.
\<close>

datatype 'a reply = Raises string | Data 'a

text \<open>
  A public operation returns a dictionary with \<^verbatim>\<open>"success": False\<close>, an
  \<^verbatim>\<open>"error"\<close> text and possibly \<^verbatim>\<open>"session_completed": True\<close>, or one
  with \<^verbatim>\<open>"success": True\<close> and a payload; \<open>Uncaught\<close> is an exception that leaves
  the operation.
\<close>

datatype 'a outcome = Uncaught py_error | Failure string bool | Success 'a

subsection \<open>Questions, responses, sessions\<close>

text \<open>A row of \<^verbatim>\<open>pyq_metadata\<close>; \<open>None\<close> is the null of an empty column.\<close>

record metadata =
  md_question_id :: string
  md_year :: "int option"
  md_exam_session :: "string option"
  md_source :: "string option"
  md_difficulty_level :: "string option"
  md_question_type :: "string option"
  md_solution :: "string option"

record question =
  q_id :: string
  correct_answer :: "string option"
  pyq_metadata :: "metadata list option"

text \<open>
  \<^verbatim>\<open>PYQSessionFilter\<close>, with the fields the engine reads (the hierarchy ids go into
  the store query, the others are checked locally).
\<close>

record session_filter =
  exam_id :: "string option"
  subject_id :: "string option"
  chapter_id :: "string option"
  topic_id :: "string option"
  concept_id :: "string option"
  year :: "int option"
  year_range :: "(int \<times> int) option"
  exam_session :: "string option"
  source :: "string option"
  difficulty_level :: "string option"
  question_type :: "string option"
  shuffle_questions :: bool

datatype session_status = ACTIVE | PAUSED | COMPLETED | EXPIRED

text \<open>The dictionary \<^verbatim>\<open>submit_answer\<close> stores for one (session, question) pair.\<close>

record response =
  r_id :: string
  r_session_id :: string
  r_question_id :: string
  user_answer :: string
  is_correct :: bool
  time_taken :: int
  response_time :: string

text \<open>
  A session dictionary: a row of \<^verbatim>\<open>pyq_sessions\<close> or an entry of
  \<^verbatim>\<open>fallback_sessions\<close>. Every key is optional.
\<close>

record session =
  s_id :: "string option"
  user_id :: "string option"
  session_name :: "string option"
  filters :: "session_filter option"
  current_question_index :: "int option"
  total_questions :: "int option"
  questions_answered :: "int option"
  questions_correct :: "int option"
  questions_incorrect :: "int option"
  questions_skipped :: "int option"
  start_time :: "string option"
  last_activity :: "string option"
  is_active :: "bool option"
  status :: "session_status option"
  time_limit :: "int option"
  question_ids :: "string list option"
  responses :: "(string \<times> response) list option"
  question_bank :: "(string \<times> question) list option"

definition empty_session :: session where
  \<comment> \<open>the dictionary \<^verbatim>\<open>{}\<close>\<close>
  "empty_session = \<lparr>s_id = None, user_id = None, session_name = None, filters = None,
     current_question_index = None, total_questions = None, questions_answered = None,
     questions_correct = None, questions_incorrect = None, questions_skipped = None,
     start_time = None, last_activity = None, is_active = None, status = None,
     time_limit = None, question_ids = None, responses = None, question_bank = None\<rparr>"

text \<open>The fields an \<^verbatim>\<open>update\<close> of \<^verbatim>\<open>pyq_sessions\<close> sets, over all call sites.\<close>

record patch =
  p_current_question_index :: "int option"
  p_questions_answered :: "int option"
  p_is_active :: "bool option"
  p_last_activity :: "string option"

definition no_patch :: patch where
  "no_patch = \<lparr>p_current_question_index = None, p_questions_answered = None,
     p_is_active = None, p_last_activity = None\<rparr>"

text \<open>The writes an operation issues to the durable store, in order.\<close>

datatype db_write = Insert session | Update string patch

record py_datetime =
  micros :: int  \<comment> \<open>the wall-clock reading, in microseconds\<close>
  utcoffset :: "int option"  \<comment> \<open>\<open>None\<close> for a naive datetime, else the offset in microseconds\<close>

text \<open>What the world outside the engine answers during one operation.\<close>

record env =
  questions_reply :: "question list reply"  \<comment> \<open>select on \<^verbatim>\<open>questions\<close>\<close>
  metadata_reply :: "metadata list reply"  \<comment> \<open>select on \<^verbatim>\<open>pyq_metadata\<close>\<close>
  session_reply :: "session list reply"  \<comment> \<open>select on \<^verbatim>\<open>pyq_sessions\<close>\<close>
  responses_reply :: "response list reply"  \<comment> \<open>select on \<^verbatim>\<open>test_responses\<close>\<close>
  insert_reply :: "session list reply"  \<comment> \<open>insert into \<^verbatim>\<open>pyq_sessions\<close>\<close>
  update_reply :: "unit reply"  \<comment> \<open>update of \<^verbatim>\<open>pyq_sessions\<close>\<close>
  provider_reply :: "question list reply"  \<comment> \<open>\<^verbatim>\<open>fallback_provider.get_filtered_questions\<close>\<close>
  shuffle :: "question list \<Rightarrow> question list"  \<comment> \<open>the order \<^verbatim>\<open>random.shuffle\<close> leaves\<close>
  uuid4 :: string  \<comment> \<open>\<^verbatim>\<open>str(uuid.uuid4())\<close>\<close>
  now :: "nat \<Rightarrow> string"  \<comment> \<open>\<^verbatim>\<open>datetime.now().isoformat()\<close> at the n-th call site\<close>
  fromisoformat :: "string \<Rightarrow> py_datetime option"  \<comment> \<open>\<open>None\<close> when it raises \<^verbatim>\<open>ValueError\<close>\<close>
  clock_local :: int  \<comment> \<open>the reading of \<^verbatim>\<open>datetime.now()\<close>\<close>
  clock_utc :: int  \<comment> \<open>the reading of \<^verbatim>\<open>datetime.now(timezone.utc)\<close>\<close>

text \<open>The service object: \<^verbatim>\<open>self.supabase\<close> and \<^verbatim>\<open>self.fallback_provider\<close> are
  set or not, \<^verbatim>\<open>self.fallback_sessions\<close> is the in-memory dictionary.\<close>

record service =
  supabase :: bool
  fallback_provider :: bool
  fallback_sessions :: "(string \<times> session) list"

subsection \<open>Python helpers\<close>

definition dict_of_list :: "('a \<Rightarrow> 'k) \<Rightarrow> 'a list \<Rightarrow> ('k \<times> 'a) list" where
  \<comment> \<open>\<^verbatim>\<open>{key(x): x for x in xs}\<close>: a later element replaces an earlier one with its key\<close>
  "dict_of_list key xs = foldl (\<lambda>d x. AList.update (key x) x d) [] xs"

definition truthy_str :: "string option \<Rightarrow> bool" where
  "truthy_str v = (case v of None \<Rightarrow> False | Some s \<Rightarrow> s \<noteq> [])"

definition truthy_int :: "int option \<Rightarrow> bool" where
  "truthy_int v = (case v of None \<Rightarrow> False | Some n \<Rightarrow> n \<noteq> 0)"

definition py_index :: "'a list \<Rightarrow> int \<Rightarrow> py_error + 'a" where
  \<comment> \<open>\<^verbatim>\<open>xs[i]\<close>: an index below 0 counts back from the end of the list\<close>
  "py_index xs i =
     (if 0 \<le> i \<and> i < int (length xs) then Inr (xs ! nat i)
      else if i < 0 \<and> - int (length xs) \<le> i then Inr (xs ! nat (int (length xs) + i))
      else Inl IndexError)"

definition get_or :: "'a option \<Rightarrow> 'a \<Rightarrow> 'a" where
  \<comment> \<open>\<^verbatim>\<open>d.get(key, default)\<close> on an optional field\<close>
  "get_or v d = (case v of None \<Rightarrow> d | Some x \<Rightarrow> x)"


section \<open>The operations of \<^verbatim>\<open>PYQRetrieverService\<close>\<close>

text \<open>
  An operation takes the replies of the outside world (\<open>env\<close>) and the service object,
  and returns its result, the service object after it, and the writes it issued to the
  durable store. A store call inside \<^verbatim>\<open>try\<close>/\<^verbatim>\<open>except Exception\<close> that raises
  takes the branch of the handler.
\<close>

subsection \<open>\<^verbatim>\<open>_get_question_with_metadata\<close>\<close>

definition get_question_with_metadata :: "env \<Rightarrow> service \<Rightarrow> string \<Rightarrow> question option" where
  "get_question_with_metadata e svc question_id =
     (if supabase svc then
        (case questions_reply e of
           Raises _ \<Rightarrow> None
         | Data [] \<Rightarrow> None
         | Data (q # _) \<Rightarrow>
             (case metadata_reply e of
                Raises _ \<Rightarrow> Some (q\<lparr>pyq_metadata := Some []\<rparr>)
              | Data [] \<Rightarrow> Some q
              | Data (m # ms) \<Rightarrow> Some (q\<lparr>pyq_metadata := Some (m # ms)\<rparr>)))
      else None)"

subsection \<open>\<^verbatim>\<open>_get_session_question_ids\<close>\<close>

definition get_session_question_ids :: "service \<Rightarrow> string \<Rightarrow> string list" where
  "get_session_question_ids svc session_id =
     (case map_of (fallback_sessions svc) session_id of
        None \<Rightarrow> []
      | Some s \<Rightarrow> get_or (question_ids s) [])"

subsection \<open>\<^verbatim>\<open>_get_filtered_questions\<close>\<close>

datatype verdict = Skip | Keep | Throws

definition metadata_verdict :: "session_filter \<Rightarrow> metadata \<Rightarrow> verdict" where
  \<comment> \<open>the chain of \<^verbatim>\<open>continue\<close> tests of the loop body; comparing a null year with the
      bounds of \<^verbatim>\<open>year_range\<close> raises \<^verbatim>\<open>TypeError\<close>\<close>
  "metadata_verdict f m =
     (if truthy_int (year f) \<and> md_year m \<noteq> year f then Skip
      else if year_range f \<noteq> None \<and> md_year m = None then Throws
      else if (case (year_range f, md_year m) of
                 (Some (lo, hi), Some y) \<Rightarrow> \<not> (lo \<le> y \<and> y \<le> hi)
               | _ \<Rightarrow> False) then Skip
      else if truthy_str (exam_session f) \<and> md_exam_session m \<noteq> exam_session f then Skip
      else if truthy_str (source f) \<and> md_source m \<noteq> source f then Skip
      else if truthy_str (difficulty_level f) \<and> md_difficulty_level m \<noteq> difficulty_level f
        then Skip
      else if truthy_str (question_type f) \<and> md_question_type m \<noteq> question_type f then Skip
      else Keep)"

text \<open>
  The loop over \<^verbatim>\<open>questions\<close>. It returns the list it iterates over, with the
  \<^verbatim>\<open>pyq_metadata\<close> keys it has set in place so far, and \<^verbatim>\<open>filtered\<close>
  (\<open>None\<close> when the body raised).
\<close>

fun filter_by_metadata ::
  "session_filter \<Rightarrow> (string \<times> metadata) list \<Rightarrow> question list \<Rightarrow>
   question list \<times> question list option" where
  "filter_by_metadata f by_question [] = ([], Some [])"
| "filter_by_metadata f by_question (q # qs) =
     (case map_of by_question (q_id q) of
        None \<Rightarrow> (case filter_by_metadata f by_question qs of (qs', r) \<Rightarrow> (q # qs', r))
      | Some m \<Rightarrow>
          (case metadata_verdict f m of
             Skip \<Rightarrow> (case filter_by_metadata f by_question qs of (qs', r) \<Rightarrow> (q # qs', r))
           | Throws \<Rightarrow> (q # qs, None)
           | Keep \<Rightarrow>
               (let q' = q\<lparr>pyq_metadata := Some [m]\<rparr>
                in case filter_by_metadata f by_question qs of
                     (qs', r) \<Rightarrow> (q' # qs', map_option ((#) q') r))))"

definition has_metadata_filter :: "session_filter \<Rightarrow> bool" where
  "has_metadata_filter f =
     (truthy_int (year f) \<or> year_range f \<noteq> None \<or> truthy_str (exam_session f) \<or>
      truthy_str (source f) \<or> truthy_str (difficulty_level f) \<or> truthy_str (question_type f))"

definition get_filtered_questions :: "env \<Rightarrow> service \<Rightarrow> session_filter \<Rightarrow> string + question list" where
  \<comment> \<open>\<open>Inl\<close>: the exception of the fallback provider, which leaves the function\<close>
  "get_filtered_questions e svc f =
     (let questions =
        (if supabase svc then
           (case questions_reply e of
              Raises _ \<Rightarrow> []
            | Data qs \<Rightarrow>
                if qs \<noteq> [] \<and> has_metadata_filter f then
                  (case metadata_reply e of
                     Raises _ \<Rightarrow> qs
                   | Data ms \<Rightarrow>
                       (case filter_by_metadata f (dict_of_list md_question_id ms) qs of
                          (qs', None) \<Rightarrow> qs'
                        | (_, Some filtered) \<Rightarrow> filtered))
                else qs)
         else [])
      in if questions = [] \<and> fallback_provider svc then
           (case provider_reply e of Raises msg \<Rightarrow> Inl msg | Data qs \<Rightarrow> Inr qs)
         else Inr questions)"

subsection \<open>\<^verbatim>\<open>create_session\<close>\<close>

record create_result =
  cr_session :: session
  cr_total_questions :: int
  cr_fallback :: bool  \<comment> \<open>the key \<^verbatim>\<open>"fallback"\<close> is present (and \<^verbatim>\<open>True\<close>)\<close>

definition session_data :: "env \<Rightarrow> string \<Rightarrow> string \<Rightarrow> session_filter \<Rightarrow> question list \<Rightarrow> session" where
  "session_data e uid name f questions =
     empty_session\<lparr>user_id := Some uid, session_name := Some name, filters := Some f,
       current_question_index := Some 0,
       total_questions := Some (int (length questions)),
       questions_answered := Some 0,
       start_time := Some (now e 0), last_activity := Some (now e 1),
       is_active := Some True\<rparr>"

definition create_session ::
  "env \<Rightarrow> service \<Rightarrow> string \<Rightarrow> string \<Rightarrow> session_filter \<Rightarrow> int option \<Rightarrow>
   create_result outcome \<times> service \<times> db_write list" where
  "create_session e svc uid name f limit =
     (case get_filtered_questions e svc f of
        Inl msg \<Rightarrow> (Failure msg False, svc, [])
      | Inr resolved \<Rightarrow>
          if resolved = [] then
            (Failure ''No questions found matching the specified filters'' False, svc, [])
          else
            (let questions = (if shuffle_questions f then shuffle e resolved else resolved);
                 sd = session_data e uid name f questions;
                 qids = map q_id questions;
                 bank = dict_of_list q_id questions;
                 inserted =
                   (if supabase svc then
                      (case insert_reply e of
                         Data (row # _) \<Rightarrow> map_option (\<lambda>sid. (row, sid)) (s_id row)
                       | _ \<Rightarrow> None)
                    else None);
                 writes = (if supabase svc then [Insert sd] else [])
             in case inserted of
                  Some (row, sid) \<Rightarrow>
                    (Success \<lparr>cr_session = row\<lparr>question_ids := Some qids, time_limit := limit\<rparr>,
                              cr_total_questions = int (length questions),
                              cr_fallback = False\<rparr>,
                     svc\<lparr>fallback_sessions :=
                       AList.update sid
                         (empty_session\<lparr>s_id := Some sid, question_ids := Some qids,
                            question_bank := Some bank\<rparr>)
                         (fallback_sessions svc)\<rparr>,
                     writes)
                | None \<Rightarrow>
                    (let sid = uuid4 e;
                         fallback_session =
                           sd\<lparr>s_id := Some sid, time_limit := limit, question_ids := Some qids,
                              questions_correct := Some 0, questions_incorrect := Some 0,
                              questions_skipped := Some 0, status := Some ACTIVE,
                              responses := Some [], question_bank := Some bank\<rparr>
                     in (Success \<lparr>cr_session =
                                   fallback_session\<lparr>responses := None, question_bank := None\<rparr>,
                                 cr_total_questions = int (length questions),
                                 cr_fallback = True\<rparr>,
                         svc\<lparr>fallback_sessions :=
                           AList.update sid fallback_session (fallback_sessions svc)\<rparr>,
                         writes))))"

subsection \<open>Loading a session\<close>

text \<open>
  The prologue shared by \<^verbatim>\<open>get_current_question\<close>, \<^verbatim>\<open>navigate_to_question\<close>,
  \<^verbatim>\<open>jump_to_question\<close> and \<^verbatim>\<open>get_session_progress\<close>: the row of the durable
  store if the select returns one, else the entry of \<^verbatim>\<open>fallback_sessions\<close>. The
  flag is \<^verbatim>\<open>source == "fallback"\<close>.
\<close>

definition load_session :: "env \<Rightarrow> service \<Rightarrow> string \<Rightarrow> (session \<times> bool) option" where
  "load_session e svc session_id =
     (case (if supabase svc then
              (case session_reply e of Data (row # _) \<Rightarrow> Some row | _ \<Rightarrow> None)
            else None) of
        Some row \<Rightarrow> Some (row, False)
      | None \<Rightarrow> map_option (\<lambda>s. (s, True)) (map_of (fallback_sessions svc) session_id))"

definition session_question_ids :: "service \<Rightarrow> string \<Rightarrow> session \<Rightarrow> bool \<Rightarrow> string list" where
  "session_question_ids svc session_id s fb =
     (if fb then get_or (question_ids s) [] else get_session_question_ids svc session_id)"

subsection \<open>\<^verbatim>\<open>get_current_question\<close>\<close>

record current_result =
  cq_question :: question
  cq_session_id :: string
  cq_current_index :: int
  cq_total_questions :: int
  cq_questions_answered :: int
  cq_progress_percentage :: real
  cq_previous_response :: "response option"
  cq_has_previous :: bool
  cq_has_next :: bool
  cq_is_last :: bool
  cq_fallback :: bool

definition get_current_question ::
  "env \<Rightarrow> service \<Rightarrow> string \<Rightarrow> current_result outcome \<times> service \<times> db_write list" where
  "get_current_question e svc session_id =
     (case load_session e svc session_id of
        None \<Rightarrow> (Failure ''Session not found'' False, svc, [])
      | Some (s, fb) \<Rightarrow>
          (let qids = session_question_ids svc session_id s fb
           in if qids = [] then (Failure ''No questions found for this session'' False, svc, [])
              else
                (let current_index = get_or (current_question_index s) 0
                 in if current_index \<ge> int (length qids) then
                      (Failure ''No more questions in this session'' True, svc, [])
                    else
                      (case py_index qids current_index of
                         Inl err \<Rightarrow> (Uncaught err, svc, [])
                       | Inr current_question_id \<Rightarrow>
                           (case get_question_with_metadata e svc current_question_id of
                              None \<Rightarrow> (Failure ''Question not found'' False, svc, [])
                            | Some q \<Rightarrow>
                                (let previous_response =
                                       (if fb then
                                          map_of (get_or (responses s) []) current_question_id
                                        else
                                          (case responses_reply e of
                                             Data (r # _) \<Rightarrow> Some r
                                           | _ \<Rightarrow> None));
                                     svc' =
                                       (if fb then
                                          svc\<lparr>fallback_sessions :=
                                            AList.update session_id
                                              (s\<lparr>last_activity := Some (now e 0)\<rparr>)
                                              (fallback_sessions svc)\<rparr>
                                        else svc);
                                     writes =
                                       (if fb then []
                                        else [Update session_id
                                                (no_patch\<lparr>p_last_activity := Some (now e 0)\<rparr>)])
                                 in (Success
                                       \<lparr>cq_question = q,
                                        cq_session_id = session_id,
                                        cq_current_index = current_index,
                                        cq_total_questions = int (length qids),
                                        cq_questions_answered = get_or (questions_answered s) 0,
                                        cq_progress_percentage =
                                          real_of_int current_index / real (length qids) * 100,
                                        cq_previous_response = previous_response,
                                        cq_has_previous = (current_index > 0),
                                        cq_has_next = (current_index < int (length qids) - 1),
                                        cq_is_last = (current_index = int (length qids) - 1),
                                        cq_fallback = fb\<rparr>,
                                     svc', writes)))))))"


subsection \<open>\<^verbatim>\<open>_update_session_stats\<close>\<close>

definition count_correct :: "(string \<times> response) list \<Rightarrow> int" where
  \<comment> \<open>\<^verbatim>\<open>sum(1 for r in responses.values() if r["is_correct"])\<close>\<close>
  "count_correct rs = int (length (filter (\<lambda>r. is_correct r) (map snd rs)))"

definition count_incorrect :: "(string \<times> response) list \<Rightarrow> int" where
  "count_incorrect rs = int (length (filter (\<lambda>r. \<not> is_correct r) (map snd rs)))"

definition update_session_stats :: "env \<Rightarrow> service \<Rightarrow> string \<Rightarrow> service \<times> db_write list" where
  "update_session_stats e svc session_id =
     (case map_of (fallback_sessions svc) session_id of
        None \<Rightarrow> (svc, [])
      | Some s \<Rightarrow>
          (let rs = get_or (responses s) [];
               answered = int (length rs);
               writes =
                 (if supabase svc then
                    [Update session_id
                       (no_patch\<lparr>p_questions_answered := Some answered,
                                 p_last_activity := Some (now e 1)\<rparr>)]
                  else []);
               s' = s\<lparr>questions_answered := Some answered,
                      questions_correct := Some (count_correct rs),
                      questions_incorrect := Some (count_incorrect rs),
                      last_activity := Some (now e 2)\<rparr>
           in (svc\<lparr>fallback_sessions := AList.update session_id s' (fallback_sessions svc)\<rparr>,
               writes)))"

subsection \<open>\<^verbatim>\<open>submit_answer\<close>\<close>

record submit_result =
  sr_is_correct :: bool
  sr_correct_answer :: "string option"
  sr_explanation :: "string option"
  sr_response_id :: string
  sr_fallback :: bool

definition explanation_of :: "question \<Rightarrow> string option" where
  \<comment> \<open>\<^verbatim>\<open>(question.get("pyq_metadata") or [{}])[0].get("solution", "")\<close>\<close>
  "explanation_of q =
     (case pyq_metadata q of Some (m # _) \<Rightarrow> md_solution m | _ \<Rightarrow> Some [])"

definition submit_answer ::
  "env \<Rightarrow> service \<Rightarrow> string \<Rightarrow> string \<Rightarrow> string \<Rightarrow> int \<Rightarrow>
   submit_result outcome \<times> service \<times> db_write list" where
  "submit_answer e svc session_id question_id answer seconds =
     (let looked_up = get_question_with_metadata e svc question_id;
          fallback_session = map_of (fallback_sessions svc) session_id;
          question =
            (case (looked_up, fallback_session) of
               (None, Some fs) \<Rightarrow> map_of (get_or (question_bank fs) []) question_id
             | _ \<Rightarrow> looked_up)
      in case question of
           None \<Rightarrow> (Failure ''Question not found'' False, svc, [])
         | Some q \<Rightarrow>
             (let correct = check_answer (correct_answer q) answer;
                  fs0 =
                    (case map_of (fallback_sessions svc) session_id of
                       None \<Rightarrow>
                         empty_session\<lparr>s_id := Some session_id, question_ids := Some [],
                           question_bank := Some [], responses := Some []\<rparr>
                     | Some fs \<Rightarrow> fs);
                  rs0 = get_or (responses fs0) [];
                  response_id =
                    (case map_of rs0 question_id of
                       Some existing \<Rightarrow> r_id existing
                     | None \<Rightarrow> uuid4 e);
                  rs = AList.update question_id
                         \<lparr>r_id = response_id, r_session_id = session_id,
                          r_question_id = question_id, user_answer = answer,
                          is_correct = correct, time_taken = seconds,
                          response_time = now e 0\<rparr> rs0;
                  svc1 = svc\<lparr>fallback_sessions :=
                           AList.update session_id (fs0\<lparr>responses := Some rs\<rparr>)
                             (fallback_sessions svc)\<rparr>;
                  (svc2, writes) =
                    (if supabase svc then update_session_stats e svc1 session_id
                     else (svc1, []));
                  fs2 = get_or (map_of (fallback_sessions svc2) session_id) empty_session;
                  fs3 = fs2\<lparr>questions_answered := Some (int (length rs)),
                          questions_correct := Some (count_correct rs),
                          questions_incorrect := Some (count_incorrect rs),
                          last_activity := Some (now e 3)\<rparr>
              in (Success \<lparr>sr_is_correct = correct,
                           sr_correct_answer = correct_answer q,
                           sr_explanation = explanation_of q,
                           sr_response_id = response_id,
                           sr_fallback = True\<rparr>,
                  svc2\<lparr>fallback_sessions :=
                    AList.update session_id fs3 (fallback_sessions svc2)\<rparr>,
                  writes)))"

subsection \<open>\<^verbatim>\<open>navigate_to_question\<close> and \<^verbatim>\<open>jump_to_question\<close>\<close>

record nav_result =
  nv_current_index :: int
  nv_fallback :: bool

definition store_index ::
  "env \<Rightarrow> service \<Rightarrow> string \<Rightarrow> session \<Rightarrow> bool \<Rightarrow> int \<Rightarrow>
   nav_result outcome \<times> service \<times> db_write list" where
  \<comment> \<open>the common tail of both operations: write the new index to the store the session
      came from, and report it\<close>
  "store_index e svc session_id s fb i =
     (Success \<lparr>nv_current_index = i, nv_fallback = fb\<rparr>,
      (if fb then
         svc\<lparr>fallback_sessions :=
           AList.update session_id
             (s\<lparr>current_question_index := Some i, last_activity := Some (now e 0)\<rparr>)
             (fallback_sessions svc)\<rparr>
       else svc),
      (if fb then []
       else [Update session_id
               (no_patch\<lparr>p_current_question_index := Some i,
                         p_last_activity := Some (now e 0)\<rparr>)]))"

definition navigate_to_question ::
  "env \<Rightarrow> service \<Rightarrow> string \<Rightarrow> string \<Rightarrow> nav_result outcome \<times> service \<times> db_write list" where
  "navigate_to_question e svc session_id direction =
     (case load_session e svc session_id of
        None \<Rightarrow> (Failure ''Session not found'' False, svc, [])
      | Some (s, fb) \<Rightarrow>
          (let qids = session_question_ids svc session_id s fb
           in if qids = [] then (Failure ''No questions found for this session'' False, svc, [])
              else
                (let current_index = get_or (current_question_index s) 0
                 in if direction = ''next'' then
                      (if current_index \<ge> int (length qids) - 1 then
                         (Failure ''Cannot move beyond the last question'' False, svc, [])
                       else store_index e svc session_id s fb (current_index + 1))
                    else if direction = ''previous'' then
                      (if current_index \<le> 0 then
                         (Failure ''Cannot move before the first question'' False, svc, [])
                       else store_index e svc session_id s fb (current_index - 1))
                    else (Failure ''Invalid navigation direction'' False, svc, []))))"

definition jump_to_question ::
  "env \<Rightarrow> service \<Rightarrow> string \<Rightarrow> int \<Rightarrow> nav_result outcome \<times> service \<times> db_write list" where
  "jump_to_question e svc session_id question_index =
     (case load_session e svc session_id of
        None \<Rightarrow> (Failure ''Session not found'' False, svc, [])
      | Some (s, fb) \<Rightarrow>
          (let qids = session_question_ids svc session_id s fb
           in if qids = [] then (Failure ''No questions found for this session'' False, svc, [])
              else if question_index < 0 \<or> question_index \<ge> int (length qids) then
                (Failure ''Invalid question index'' False, svc, [])
              else store_index e svc session_id s fb question_index))"

subsection \<open>\<^verbatim>\<open>_calculate_session_duration\<close>\<close>

definition dt_sub :: "py_datetime \<Rightarrow> py_datetime \<Rightarrow> py_error + int" where
  \<comment> \<open>\<^verbatim>\<open>a - b\<close> on datetimes, in microseconds: two naive readings are subtracted as
      they are, two aware ones after conversion to UTC, a mixed pair raises\<close>
  "dt_sub a b =
     (case (utcoffset a, utcoffset b) of
        (None, None) \<Rightarrow> Inr (micros a - micros b)
      | (Some oa, Some ob) \<Rightarrow> Inr ((micros a - oa) - (micros b - ob))
      | _ \<Rightarrow> Inl TypeError)"

definition total_seconds :: "int \<Rightarrow> real" where
  "total_seconds d = real_of_int d / 1000000"

definition duration_try :: "env \<Rightarrow> string \<Rightarrow> py_error + real" where
  \<comment> \<open>the body of the \<^verbatim>\<open>try\<close> block\<close>
  "duration_try e start_time_str =
     (case fromisoformat e start_time_str of
        None \<Rightarrow> Inl ValueError
      | Some start \<Rightarrow>
          (let current =
                 (if utcoffset start \<noteq> None then \<lparr>micros = clock_utc e, utcoffset = Some 0\<rparr>
                  else \<lparr>micros = clock_local e, utcoffset = None\<rparr>)
           in case dt_sub current start of
                Inl err \<Rightarrow> Inl err
              | Inr d \<Rightarrow> Inr (total_seconds d)))"

definition calculate_session_duration :: "env \<Rightarrow> string option \<Rightarrow> real" where
  "calculate_session_duration e start_time_str =
     (case start_time_str of
        None \<Rightarrow> 0
      | Some str \<Rightarrow>
          if str = [] then 0
          else (case duration_try e str of Inl _ \<Rightarrow> 0 | Inr v \<Rightarrow> v))"

subsection \<open>\<^verbatim>\<open>get_session_progress\<close>\<close>

datatype question_status = NOT_ATTEMPTED | ATTEMPTED | CORRECT | INCORRECT | SKIPPED

record progress_result =
  pr_session_id :: string
  pr_session_name :: "string option"
  pr_current_question :: int
  pr_total_questions :: int
  pr_questions_answered :: int
  pr_questions_correct :: int
  pr_questions_incorrect :: int
  pr_questions_remaining :: int
  pr_progress_percentage :: real
  pr_accuracy_percentage :: real
  pr_total_time_seconds :: int
  pr_average_time_per_question :: real
  pr_session_duration :: real
  pr_question_status :: "question_status list"  \<comment> \<open>the status at each index\<close>
  pr_is_completed :: bool
  pr_fallback :: bool

definition status_of :: "response list \<Rightarrow> string \<Rightarrow> question_status" where
  "status_of rs qid =
     (case find (\<lambda>r. r_question_id r = qid) rs of
        Some r \<Rightarrow> (if is_correct r then CORRECT else INCORRECT)
      | None \<Rightarrow> NOT_ATTEMPTED)"

definition get_session_progress ::
  "env \<Rightarrow> service \<Rightarrow> string \<Rightarrow> progress_result outcome \<times> service \<times> db_write list" where
  "get_session_progress e svc session_id =
     (case load_session e svc session_id of
        None \<Rightarrow> (Failure ''Session not found'' False, svc, [])
      | Some (s, fb) \<Rightarrow>
          (let fallback_data = get_or (map_of (fallback_sessions svc) session_id) empty_session;
               rs = map snd (get_or (responses fallback_data) []);
               qids = (if fb then get_or (question_ids fallback_data) []
                       else get_session_question_ids svc session_id);
               total = get_or (total_questions s) (int (length qids));
               answered = int (length rs);
               n_correct = int (length (filter (\<lambda>r. is_correct r) rs));
               n_incorrect = int (length (filter (\<lambda>r. \<not> is_correct r) rs));
               total_time = sum_list (map time_taken rs);
               avg_time = (if answered \<noteq> 0 then real_of_int total_time / real_of_int answered
                           else 0)
           in (Success
                 \<lparr>pr_session_id = session_id,
                  pr_session_name = session_name s,
                  pr_current_question = get_or (current_question_index s) 0 + 1,
                  pr_total_questions = total,
                  pr_questions_answered = answered,
                  pr_questions_correct = n_correct,
                  pr_questions_incorrect = n_incorrect,
                  pr_questions_remaining = total - answered,
                  pr_progress_percentage =
                    (if total \<noteq> 0 then real_of_int answered / real_of_int total * 100 else 0),
                  pr_accuracy_percentage =
                    (if answered \<noteq> 0 then real_of_int n_correct / real_of_int answered * 100
                     else 0),
                  pr_total_time_seconds = total_time,
                  pr_average_time_per_question = avg_time,
                  pr_session_duration = calculate_session_duration e (start_time s),
                  pr_question_status = map (status_of rs) qids,
                  pr_is_completed = (answered = total),
                  pr_fallback = fb\<rparr>,
               svc, [])))"

subsection \<open>\<^verbatim>\<open>pause_session\<close> and \<^verbatim>\<open>resume_session\<close>\<close>

record pause_result =
  pz_message :: string
  pz_fallback :: bool

definition set_active ::
  "bool \<Rightarrow> session_status \<Rightarrow> string \<Rightarrow> env \<Rightarrow> service \<Rightarrow> string \<Rightarrow>
   pause_result outcome \<times> service \<times> db_write list" where
  \<comment> \<open>the body the two operations share, up to the flag, the status and the message\<close>
  "set_active flag st msg e svc session_id =
     (let writes =
            (if supabase svc then
               [Update session_id
                  (no_patch\<lparr>p_is_active := Some flag, p_last_activity := Some (now e 0)\<rparr>)]
             else [])
      in if supabase svc \<and> update_reply e = Data () then
           (Success \<lparr>pz_message = msg, pz_fallback = False\<rparr>, svc, writes)
         else
           (case map_of (fallback_sessions svc) session_id of
              None \<Rightarrow> (Failure ''Session not found'' False, svc, writes)
            | Some s \<Rightarrow>
                (Success \<lparr>pz_message = msg, pz_fallback = True\<rparr>,
                 svc\<lparr>fallback_sessions :=
                   AList.update session_id
                     (s\<lparr>is_active := Some flag, status := Some st,
                        last_activity := Some (now e 1)\<rparr>)
                     (fallback_sessions svc)\<rparr>,
                 writes)))"

definition pause_session ::
  "env \<Rightarrow> service \<Rightarrow> string \<Rightarrow> pause_result outcome \<times> service \<times> db_write list" where
  "pause_session = set_active False PAUSED ''Session paused''"

definition resume_session ::
  "env \<Rightarrow> service \<Rightarrow> string \<Rightarrow> pause_result outcome \<times> service \<times> db_write list" where
  "resume_session = set_active True ACTIVE ''Session resumed''"


section \<open>Example scenarios\<close>

definition no_filter :: session_filter where
  "no_filter = \<lparr>exam_id = None, subject_id = None, chapter_id = None, topic_id = None,
     concept_id = None, year = None, year_range = None, exam_session = None, source = None,
     difficulty_level = None, question_type = None, shuffle_questions = False\<rparr>"

definition question_A :: question where
  "question_A = \<lparr>q_id = ''q1'', correct_answer = Some ''A'', pyq_metadata = None\<rparr>"

definition question_B :: question where
  "question_B = \<lparr>q_id = ''q2'', correct_answer = Some ''B'', pyq_metadata = None\<rparr>"

text \<open>Every call of the durable store raises; the fallback provider answers \<open>provided\<close>.\<close>

definition store_down :: "question list \<Rightarrow> env" where
  "store_down provided =
     \<lparr>questions_reply = Raises ''unreachable'', metadata_reply = Raises ''unreachable'',
      session_reply = Raises ''unreachable'', responses_reply = Raises ''unreachable'',
      insert_reply = Raises ''unreachable'', update_reply = Raises ''unreachable'',
      provider_reply = Data provided, shuffle = (\<lambda>qs. qs), uuid4 = ''u1'',
      now = (\<lambda>_. ''2024-01-01T10:00:00''),
      fromisoformat =
        (\<lambda>str. if str = ''2024-01-01T10:00:00'' then Some \<lparr>micros = 7000000, utcoffset = None\<rparr>
               else if str = ''2024-01-01T10:00:00+01:00''
               then Some \<lparr>micros = 7000000, utcoffset = Some 3600000000\<rparr>
               else None),
      clock_local = 9000000, clock_utc = 8000000\<rparr>"

text \<open>The store answers the select on \<^verbatim>\<open>questions\<close> with \<open>q\<close>, and has no row of
  \<^verbatim>\<open>pyq_sessions\<close>.\<close>

definition store_up :: "question \<Rightarrow> env" where
  "store_up q =
     (store_down [])\<lparr>questions_reply := Data [q], metadata_reply := Data [],
        session_reply := Data [], responses_reply := Data [], insert_reply := Data [],
        update_reply := Data (), uuid4 := ''u2''\<rparr>"

definition service_0 :: service where
  "service_0 = \<lparr>supabase = True, fallback_provider = True, fallback_sessions = []\<rparr>"

definition after :: "'a \<times> service \<times> db_write list \<Rightarrow> service" where
  "after r = fst (snd r)"

text \<open>A session of one question, created and answered while the store is down.\<close>

definition created_service :: service where
  "created_service =
     after (create_session (store_down [question_A]) service_0 ''user'' ''practice'' no_filter None)"

definition answered_service :: service where
  "answered_service = after (submit_answer (store_down []) created_service ''u1'' ''q1'' ''a'' 5)"

text \<open>Then the store is back, and an answer to a question outside the session arrives.\<close>

definition overfull_service :: service where
  "overfull_service = after (submit_answer (store_up question_B) answered_service ''u1'' ''q2'' ''b'' 7)"

definition progress_percentage_of ::
  "progress_result outcome \<times> service \<times> db_write list \<Rightarrow> real option" where
  "progress_percentage_of r =
     (case fst r of Success p \<Rightarrow> Some (pr_progress_percentage p) | _ \<Rightarrow> None)"

definition answered_report :: progress_result where
  "answered_report =
     \<lparr>pr_session_id = ''u1'', pr_session_name = Some ''practice'', pr_current_question = 1,
      pr_total_questions = 1, pr_questions_answered = 1, pr_questions_correct = 1,
      pr_questions_incorrect = 0, pr_questions_remaining = 0, pr_progress_percentage = 100,
      pr_accuracy_percentage = 100, pr_total_time_seconds = 5,
      pr_average_time_per_question = 5, pr_session_duration = 2,
      pr_question_status = [CORRECT], pr_is_completed = True, pr_fallback = True\<rparr>"

section \<open>Frames\<close>

text \<open>Two session dictionaries agree on every key but \<^verbatim>\<open>is_active\<close>,
  \<^verbatim>\<open>status\<close> and \<^verbatim>\<open>last_activity\<close>.\<close>

definition same_but_activity :: "session \<Rightarrow> session \<Rightarrow> bool" where
  "same_but_activity s s' =
     (s'\<lparr>is_active := is_active s, status := status s, last_activity := last_activity s\<rparr> = s)"

text \<open>An update of the durable store that sets at most \<^verbatim>\<open>is_active\<close> and
  \<^verbatim>\<open>last_activity\<close>.\<close>

definition activity_patch :: "patch \<Rightarrow> bool" where
  "activity_patch p = (p_current_question_index p = None \<and> p_questions_answered p = None)"

section \<open>Summaries of \<^verbatim>\<open>submit_answer\<close>\<close>

text \<open>
  Two abbreviations for stating what \<^verbatim>\<open>submit_answer\<close> does: the question it
  grades against (the row of the store, else the session's \<^verbatim>\<open>question_bank\<close>),
  and the entry of \<^verbatim>\<open>fallback_sessions\<close> it leaves behind.
\<close>

definition stored_session :: "env \<Rightarrow> service \<Rightarrow> string \<Rightarrow> string \<Rightarrow> string \<Rightarrow> int \<Rightarrow> question \<Rightarrow> session" where
  "stored_session e svc sid qid a t q =
     (let fs0 = (case map_of (fallback_sessions svc) sid of
                   None \<Rightarrow> empty_session\<lparr>s_id := Some sid, question_ids := Some [],
                             question_bank := Some [], responses := Some []\<rparr>
                 | Some fs \<Rightarrow> fs);
          rs0 = get_or (responses fs0) [];
          rid = (case map_of rs0 qid of Some existing \<Rightarrow> r_id existing | None \<Rightarrow> uuid4 e);
          rs = AList.update qid
                 \<lparr>r_id = rid, r_session_id = sid, r_question_id = qid, user_answer = a,
                  is_correct = check_answer (correct_answer q) a, time_taken = t,
                  response_time = now e 0\<rparr> rs0
      in fs0\<lparr>responses := Some rs,
             questions_answered := Some (int (length rs)),
             questions_correct := Some (count_correct rs),
             questions_incorrect := Some (count_incorrect rs),
             last_activity := Some (now e 3)\<rparr>)"

definition resolve_question :: "env \<Rightarrow> service \<Rightarrow> string \<Rightarrow> string \<Rightarrow> question option" where
  "resolve_question e svc sid qid =
     (case (get_question_with_metadata e svc qid, map_of (fallback_sessions svc) sid) of
        (None, Some fs) \<Rightarrow> map_of (get_or (question_bank fs) []) qid
      | _ \<Rightarrow> get_question_with_metadata e svc qid)"

text \<open>An operation returned a dictionary with \<^verbatim>\<open>"success": True\<close>.\<close>

definition succeeded :: "'a outcome \<times> service \<times> db_write list \<Rightarrow> bool" where
  "succeeded r = (case fst r of Success _ \<Rightarrow> True | _ \<Rightarrow> False)"

section \<open>The cursor of a session\<close>

text \<open>
  The current index and the number of questions of the session an operation loads:
  the index is read from the session dictionary (0 when the key is absent), the question
  ids from the fallback entry.
\<close>

definition cursor :: "env \<Rightarrow> service \<Rightarrow> string \<Rightarrow> (int \<times> int) option" where
  "cursor e svc session_id =
     map_option
       (\<lambda>(s, fb). (get_or (current_question_index s) 0,
                    int (length (session_question_ids svc session_id s fb))))
       (load_session e svc session_id)"

text \<open>
  A successful navigation has stored the index it reports: in the fallback entry when
  the session came from there (and then no write goes to the durable store), else in the
  one update it sends to the durable store.
\<close>

definition index_stored ::
  "env \<Rightarrow> service \<Rightarrow> service \<Rightarrow> db_write list \<Rightarrow> string \<Rightarrow> nav_result \<Rightarrow> int \<Rightarrow> bool" where
  "index_stored e svc svc' w session_id r n =
     (if nv_fallback r then w = [] \<and> cursor e svc' session_id = Some (nv_current_index r, n)
      else svc' = svc \<and>
        (case w of
           [Update k p] \<Rightarrow> k = session_id \<and> p_current_question_index p = Some (nv_current_index r)
         | _ \<Rightarrow> False))"

definition cursor_percentage_of ::
  "current_result outcome \<times> service \<times> db_write list \<Rightarrow> real option" where
  "cursor_percentage_of r =
     (case fst r of Success c \<Rightarrow> Some (cq_progress_percentage c) | _ \<Rightarrow> None)"

text \<open>A session of two questions, created while the store is down; its first question
  answered.\<close>

definition two_question_service :: service where
  "two_question_service =
     after (create_session (store_down [question_A, question_B]) service_0
              ''user'' ''practice'' no_filter None)"

definition half_done_service :: service where
  "half_done_service =
     after (submit_answer (store_down []) two_question_service ''u1'' ''q1'' ''a'' 5)"

text \<open>The same session of two questions, moved to its last question.\<close>

definition last_question_service :: service where
  "last_question_service =
     after (navigate_to_question (store_down []) two_question_service ''u1'' ''next'')"

text \<open>The \<^verbatim>\<open>"error"\<close> text of a result with \<^verbatim>\<open>"success": False\<close>.\<close>

definition error_of :: "'a outcome \<times> service \<times> db_write list \<Rightarrow> string option" where
  "error_of r = (case fst r of Failure m _ \<Rightarrow> Some m | _ \<Rightarrow> None)"

definition created_in_fallback ::
  "create_result outcome \<times> service \<times> db_write list \<Rightarrow> string option" where
  \<comment> \<open>the id of the session a successful \<^verbatim>\<open>create_session\<close> flags as fallback\<close>
  "created_in_fallback r =
     (case fst r of Success c \<Rightarrow> (if cr_fallback c then s_id (cr_session c) else None)
      | _ \<Rightarrow> None)"

section \<open>The states the service reaches\<close>

text \<open>
  The invariant of the data model on one session dictionary, and on every entry of
  \<^verbatim>\<open>fallback_sessions\<close>.
\<close>

definition index_in_range :: "session \<Rightarrow> bool" where
  "index_in_range s =
     (0 \<le> get_or (current_question_index s) 0 \<and>
      get_or (current_question_index s) 0 \<le> int (length (get_or (question_ids s) [])))"

definition fallback_in_range :: "service \<Rightarrow> bool" where
  "fallback_in_range svc =
     (\<forall>k s. map_of (fallback_sessions svc) k = Some s \<longrightarrow> index_in_range s)"

text \<open>A service object that starts with no session and serves any sequence of calls,
  whatever the outside world answers.\<close>

inductive reachable :: "service \<Rightarrow> bool" where
  start: "fallback_sessions svc = [] \<Longrightarrow> reachable svc"
| create: "reachable svc \<Longrightarrow> reachable (after (create_session e svc uid name f limit))"
| current: "reachable svc \<Longrightarrow> reachable (after (get_current_question e svc sid))"
| submit: "reachable svc \<Longrightarrow> reachable (after (submit_answer e svc sid qid a t))"
| navigate: "reachable svc \<Longrightarrow> reachable (after (navigate_to_question e svc sid d))"
| jump: "reachable svc \<Longrightarrow> reachable (after (jump_to_question e svc sid i))"
| progress: "reachable svc \<Longrightarrow> reachable (after (get_session_progress e svc sid))"
| pause: "reachable svc \<Longrightarrow> reachable (after (pause_session e svc sid))"
| resume: "reachable svc \<Longrightarrow> reachable (after (resume_session e svc sid))"

section \<open>Grading\<close>

text \<open>
  The functions of the code and the lists they are measured against agree; what
  \<^verbatim>\<open>str.strip()\<close> returns is the string without its surrounding whitespace, and
  two strings have the same lower-case form exactly when they agree up to capitals and
  their small letters.
\<close>

lemma is_whitespace_iff: "is_whitespace c = py_isspace c"
  by (auto simp: is_whitespace_def py_isspace_def Let_def)

lemma list_all_whitespace: "list_all is_whitespace l = list_all py_isspace l"
  by (simp add: list_all_iff is_whitespace_iff)

lemma capital_code_iff:
  "capital_code n \<longleftrightarrow> (65 \<le> n \<and> n \<le> 90) \<or> (192 \<le> n \<and> n \<le> 214) \<or> (216 \<le> n \<and> n \<le> 222)"
  by (simp only: capital_code_def set_append set_upt Un_iff atLeastLessThan_iff) arith

lemma is_upper_iff: "is_upper c = capital_code (of_char c)"
  by (simp add: is_upper_def capital_code_iff Let_def)

lemma dropWhile_all: "list_all P l \<Longrightarrow> dropWhile P (l @ xs) = dropWhile P xs"
  by (induction l) auto

lemma dropWhile_app_keep:
  "dropWhile P m \<noteq> [] \<Longrightarrow> dropWhile P (m @ r) = dropWhile P m @ r"
  by (induction m) auto

lemma dropWhile_all_nil: "list_all P xs \<Longrightarrow> dropWhile P xs = []"
  by (induction xs) auto

lemma py_strip_padding:
  assumes "list_all py_isspace l" "list_all py_isspace r"
  shows "py_strip (l @ m @ r) = py_strip m"
proof (cases "dropWhile py_isspace m = []")
  case True
  then have "list_all py_isspace m"
    by (induction m) (auto split: if_splits)
  with assms have "list_all py_isspace (l @ m @ r)" by simp
  then have dw: "dropWhile py_isspace (l @ m @ r) = []" by (rule dropWhile_all_nil)
  have "py_strip (l @ m @ r) = []" unfolding py_strip_def dw by simp
  moreover have "py_strip m = []" unfolding py_strip_def True by simp
  ultimately show ?thesis by simp
next
  case False
  have "dropWhile py_isspace (l @ m @ r) = dropWhile py_isspace m @ r"
    using assms(1) False by (simp add: dropWhile_all dropWhile_app_keep)
  moreover have "list_all py_isspace (rev r)" using assms(2) by simp
  ultimately show ?thesis
    by (simp add: py_strip_def dropWhile_all)
qed

lemma dropWhile_self: "xs = [] \<or> \<not> P (hd xs) \<Longrightarrow> dropWhile P xs = xs"
  by (cases xs) auto

lemma py_strip_core:
  assumes "m = [] \<or> (\<not> py_isspace (hd m) \<and> \<not> py_isspace (last m))"
  shows "py_strip m = m"
proof -
  from assms have a: "dropWhile py_isspace m = m" by (intro dropWhile_self) auto
  from assms have "rev m = [] \<or> \<not> py_isspace (hd (rev m))"
    by (cases "m = []") (auto simp: hd_rev)
  then have "dropWhile py_isspace (rev m) = rev m" by (rule dropWhile_self)
  with a show ?thesis by (simp add: py_strip_def)
qed

lemma trimmed_strip:
  assumes "trimmed s m"
  shows "py_strip s = m"
proof -
  from assms obtain l r where
    s: "s = l @ m @ r" and ws: "list_all py_isspace l" "list_all py_isspace r" and
    core: "m = [] \<or> (\<not> py_isspace (hd m) \<and> \<not> py_isspace (last m))"
    by (auto simp: trimmed_def list_all_whitespace is_whitespace_iff)
  from py_strip_padding [OF ws] s py_strip_core [OF core] show ?thesis by simp
qed

lemma split_dropWhile:
  "\<exists>l. xs = l @ dropWhile P xs \<and> list_all P l"
proof -
  have "xs = takeWhile P xs @ dropWhile P xs" by simp
  moreover have "list_all P (takeWhile P xs)"
    by (auto simp: list_all_iff dest: set_takeWhileD)
  ultimately show ?thesis by blast
qed

lemma strip_trimmed: "trimmed s (py_strip s)"
proof -
  let ?d = "dropWhile py_isspace s"
  let ?e = "dropWhile py_isspace (rev ?d)"
  obtain l where l: "s = l @ ?d" "list_all py_isspace l"
    using split_dropWhile [of s py_isspace] by blast
  obtain r' where r': "rev ?d = r' @ ?e" "list_all py_isspace r'"
    using split_dropWhile [of "rev ?d" py_isspace] by blast
  from r'(1) have "?d = rev ?e @ rev r'"
    by (metis rev_append rev_rev_ident)
  with l have dec: "s = l @ py_strip s @ rev r'"
    by (simp add: py_strip_def)
  have wr: "list_all py_isspace (rev r')" using r'(2) by simp
  have core: "py_strip s = [] \<or>
      (\<not> py_isspace (hd (py_strip s)) \<and> \<not> py_isspace (last (py_strip s)))"
  proof (cases "?e = []")
    case True
    then show ?thesis by (simp add: py_strip_def)
  next
    case False
    then have last_ok: "\<not> py_isspace (hd ?e)" by (rule hd_dropWhile)
    from False have dne: "?d \<noteq> []"
      by (metis dropWhile.simps(1) rev.simps(1))
    then have hd_d: "\<not> py_isspace (hd ?d)" by (rule hd_dropWhile)
    from \<open>?d = rev ?e @ rev r'\<close> False have "hd ?d = hd (rev ?e)"
      by (metis hd_append2 rev_is_Nil_conv)
    with hd_d have "\<not> py_isspace (hd (py_strip s))" by (simp add: py_strip_def)
    moreover from last_ok False have "\<not> py_isspace (last (py_strip s))"
      by (simp add: py_strip_def last_rev)
    ultimately show ?thesis by blast
  qed
  from dec l(2) wr core show ?thesis
    unfolding trimmed_def list_all_whitespace is_whitespace_iff by blast
qed

lemma case_pair_facts:
  assumes "case_pair x y"
  shows "\<not> py_isspace x" "\<not> py_isspace y" "py_lower_char x = y" "py_lower_char y = y"
proof -
  from assms have u: "capital_code (of_char x)" and e: "(of_char y :: nat) = of_char x + 32"
    by (simp_all add: case_pair_def)
  from u show "\<not> py_isspace x" by (auto simp: capital_code_iff py_isspace_def Let_def)
  from u e show "\<not> py_isspace y" by (auto simp: capital_code_iff py_isspace_def Let_def)
  have "char_of (of_char y :: nat) = y" by simp
  with e have "char_of ((of_char x :: nat) + 32) = y" by simp
  with u show "py_lower_char x = y" by (simp add: py_lower_char_def is_upper_iff)
  from u e have "\<not> capital_code (of_char y)" by (auto simp: capital_code_iff)
  then show "py_lower_char y = y" by (simp add: py_lower_char_def is_upper_iff)
qed

lemma same_letter_isspace: "same_letter x y \<Longrightarrow> py_isspace x = py_isspace y"
  using case_pair_facts(1,2) by (auto simp: same_letter_def)

lemma same_letter_lower: "same_letter x y \<Longrightarrow> py_lower_char x = py_lower_char y"
  using case_pair_facts(3,4) by (auto simp: same_letter_def)

lemma lower_same_letter:
  assumes "py_lower_char x = py_lower_char y"
  shows "same_letter x y"
proof -
  have low: "(of_char (py_lower_char c) :: nat) =
      (if capital_code (of_char c) then of_char c + 32 else of_char c)" for c
    by (auto simp: py_lower_char_def is_upper_iff capital_code_iff)
  from assms have "(of_char (py_lower_char x) :: nat) = of_char (py_lower_char y)" by simp
  then have "x = y \<or> case_pair x y \<or> case_pair y x"
    unfolding low
    by (auto simp: case_pair_def capital_code_iff split: if_splits)
  then show ?thesis by (simp add: same_letter_def)
qed

lemma same_letter_py_lower:
  "list_all2 same_letter xs ys \<longleftrightarrow> py_lower xs = py_lower ys"
proof
  show "list_all2 same_letter xs ys \<Longrightarrow> py_lower xs = py_lower ys"
    by (induction xs ys rule: list_all2_induct) (auto simp: py_lower_def dest: same_letter_lower)
next
  show "py_lower xs = py_lower ys \<Longrightarrow> list_all2 same_letter xs ys"
  proof (induction xs arbitrary: ys)
    case Nil
    then show ?case by (simp add: py_lower_def)
  next
    case (Cons x xs)
    then show ?case by (cases ys) (auto simp: py_lower_def intro: lower_same_letter)
  qed
qed

lemma same_letter_dropWhile:
  "list_all2 same_letter xs ys \<Longrightarrow>
   list_all2 same_letter (dropWhile py_isspace xs) (dropWhile py_isspace ys)"
  by (induction xs ys rule: list_all2_induct) (auto dest: same_letter_isspace)

lemma same_letter_strip:
  "list_all2 same_letter xs ys \<Longrightarrow> list_all2 same_letter (py_strip xs) (py_strip ys)"
  by (simp add: py_strip_def same_letter_dropWhile)

lemma check_answer_iff:
  "check_answer c a \<longleftrightarrow>
     (\<exists>m m'. trimmed (py_str c) m \<and> trimmed a m' \<and> list_all2 same_letter m m')"
proof
  assume "check_answer c a"
  then have "list_all2 same_letter (py_strip (py_str c)) (py_strip a)"
    by (simp add: check_answer_def same_letter_py_lower)
  with strip_trimmed [of "py_str c"] strip_trimmed [of a]
  show "\<exists>m m'. trimmed (py_str c) m \<and> trimmed a m' \<and> list_all2 same_letter m m'"
    by blast
next
  assume "\<exists>m m'. trimmed (py_str c) m \<and> trimmed a m' \<and> list_all2 same_letter m m'"
  then obtain m m' where "trimmed (py_str c) m" "trimmed a m'" "list_all2 same_letter m m'"
    by blast
  with trimmed_strip [of "py_str c" m] trimmed_strip [of a m']
  show "check_answer c a"
    by (simp add: check_answer_def same_letter_py_lower)
qed

lemma normalise_variants:
  assumes "differ_only_case_ws a b"
  shows "py_lower (py_strip a) = py_lower (py_strip b)"
proof -
  from assms obtain l r l' r' m m' where
    a: "a = l @ m @ r" and b: "b = l' @ m' @ r'" and
    ws: "list_all py_isspace l" "list_all py_isspace r"
        "list_all py_isspace l'" "list_all py_isspace r'" and
    mm: "list_all2 same_letter m m'"
    unfolding differ_only_case_ws_def list_all_whitespace by blast
  have "py_strip a = py_strip m" "py_strip b = py_strip m'"
    using a b ws by (simp_all add: py_strip_padding)
  then show ?thesis
    using same_letter_strip [OF mm] by (simp add: same_letter_py_lower)
qed

text \<open>
  Claim C3, as amended. \<^verbatim>\<open>_check_answer\<close> grades an answer right exactly when the
  stored key (through \<^verbatim>\<open>str\<close>) and the answer, each without its surrounding
  whitespace, have the same length and agree position by position up to a capital and
  its own small letter: it trims and lower-cases both and compares them, and nothing
  else decides the grade. \<^verbatim>\<open>"  Paris "\<close> matches the key \<^verbatim>\<open>"paris"\<close>, a capital
  E with an acute accent matches the small one, a trailing no-break space is trimmed;
  an answer with another letter, or without an inner space of the key, is graded wrong,
  and so is the empty answer against a missing key, which is graded as the text
  \<^verbatim>\<open>"None"\<close>. Two answers, or two keys, that differ only in surrounding whitespace
  or in the case of letters that have a small letter of their own get the same grade.
\<close>

theorem check_answer_lower_trim:
  "(check_answer c a \<longleftrightarrow>
      (\<exists>m m'. trimmed (py_str c) m \<and> trimmed a m' \<and> list_all2 same_letter m m')) \<and>
   check_answer (Some ''paris'') ''  Paris '' \<and>
   check_answer (Some [CHR 0xC9]) [CHR 0xE9] \<and>
   check_answer (Some ''a'') (''a'' @ [CHR 0xA0]) \<and>
   check_answer None '' NONE'' \<and>
   \<not> check_answer (Some ''paris'') ''  Pariz '' \<and>
   \<not> check_answer (Some ''new york'') ''newyork'' \<and>
   \<not> check_answer (Some ''paris'') [] \<and>
   \<not> check_answer None [] \<and>
   (\<forall>b. differ_only_case_ws a b \<longrightarrow> check_answer c a = check_answer c b) \<and>
   (\<forall>k. differ_only_case_ws (py_str c) (py_str k) \<longrightarrow> check_answer c a = check_answer k a)"
proof (intro conjI allI impI)
  show "check_answer c a \<longleftrightarrow>
      (\<exists>m m'. trimmed (py_str c) m \<and> trimmed a m' \<and> list_all2 same_letter m m')"
    by (rule check_answer_iff)
  show "check_answer (Some ''paris'') ''  Paris ''" by code_simp
  show "check_answer (Some [CHR 0xC9]) [CHR 0xE9]" by code_simp
  show "check_answer (Some ''a'') (''a'' @ [CHR 0xA0])" by code_simp
  show "check_answer None '' NONE''" by code_simp
  show "\<not> check_answer (Some ''paris'') ''  Pariz ''" by code_simp
  show "\<not> check_answer (Some ''new york'') ''newyork''" by code_simp
  show "\<not> check_answer (Some ''paris'') []" by code_simp
  show "\<not> check_answer None []" by code_simp
  show "check_answer c a = check_answer c b" if "differ_only_case_ws a b" for b
    using normalise_variants [OF that] by (simp add: check_answer_def)
  show "check_answer c a = check_answer k a" if "differ_only_case_ws (py_str c) (py_str k)" for k
    using normalise_variants [OF that] by (simp add: check_answer_def)
qed

theorem check_answer_lower_trim_witness:
  "trimmed (py_str (Some ''paris'')) ''paris'' \<and> trimmed ''  Paris '' ''Paris'' \<and>
   list_all2 same_letter ''paris'' ''Paris'' \<and>
   differ_only_case_ws ''  Paris '' ([CHR 0xA0] @ ''PARIS'' @ [CHR 0x85]) \<and>
   check_answer (Some ''paris'') ([CHR 0xA0] @ ''PARIS'' @ [CHR 0x85]) \<and>
   differ_only_case_ws (py_str (Some ''paris'')) (py_str (Some '' pARIs'')) \<and>
   check_answer (Some '' pARIs'') ''  Paris '' \<and>
   \<not> differ_only_case_ws ''  Paris '' ''  Pariz ''"
proof -
  have ws: "list_all is_whitespace ''  ''" "list_all is_whitespace '' ''"
      "list_all is_whitespace []" "list_all is_whitespace [CHR 0xA0]"
      "list_all is_whitespace [CHR 0x85]"
    by code_simp+
  have core: "\<not> is_whitespace (hd ''paris'')" "\<not> is_whitespace (last ''paris'')"
      "\<not> is_whitespace (hd ''Paris'')" "\<not> is_whitespace (last ''Paris'')"
    by code_simp+
  have "py_str (Some ''paris'') = [] @ ''paris'' @ []" by (simp add: py_str_def)
  with ws core have t1: "trimmed (py_str (Some ''paris'')) ''paris''"
    unfolding trimmed_def by blast
  have "''  Paris '' = ''  '' @ ''Paris'' @ '' ''" by simp
  with ws core have t2: "trimmed ''  Paris '' ''Paris''"
    unfolding trimmed_def by blast
  have m0: "list_all2 same_letter ''paris'' ''Paris''" by code_simp
  have m1: "list_all2 same_letter ''Paris'' ''PARIS''" by code_simp
  have "''  Paris '' = ''  '' @ ''Paris'' @ '' ''" by simp
  with ws m1 have d1: "differ_only_case_ws ''  Paris '' ([CHR 0xA0] @ ''PARIS'' @ [CHR 0x85])"
    unfolding differ_only_case_ws_def by blast
  have m2: "list_all2 same_letter ''paris'' ''pARIs''" by code_simp
  have "''paris'' = [] @ ''paris'' @ []" "'' pARIs'' = '' '' @ ''pARIs'' @ []" by simp_all
  with ws m2 have "differ_only_case_ws ''paris'' '' pARIs''"
    unfolding differ_only_case_ws_def by blast
  then have d2: "differ_only_case_ws (py_str (Some ''paris'')) (py_str (Some '' pARIs''))"
    by (simp add: py_str_def)
  note inst = check_answer_lower_trim [of "Some ''paris''" "''  Paris ''"]
  from inst t1 t2 m0 have g: "check_answer (Some ''paris'') ''  Paris ''" by blast
  from inst d1 g have g1: "check_answer (Some ''paris'') ([CHR 0xA0] @ ''PARIS'' @ [CHR 0x85])"
    by blast
  from inst d2 g have g2: "check_answer (Some '' pARIs'') ''  Paris ''" by blast
  from inst g have "\<not> differ_only_case_ws ''  Paris '' ''  Pariz ''" by blast
  with t1 t2 m0 d1 g1 d2 g2 show ?thesis by blast
qed

text \<open>
  Grading does not case-fold. "STRASSE" and the same word written with a sharp s are
  equal after \<^verbatim>\<open>str.casefold()\<close>, so they differ only in case; against the key
  "STRASSE" the first is graded right and the second wrong.
\<close>

theorem check_answer_not_casefold:
  "py_casefold ''STRASSE'' = py_casefold strasse_sharp_s \<and>
   check_answer (Some ''STRASSE'') ''STRASSE'' \<and>
   \<not> check_answer (Some ''STRASSE'') strasse_sharp_s"
  by code_simp

section \<open>Session duration\<close>

lemma duration_try_cases:
  "duration_try e s =
     (case fromisoformat e s of
        None \<Rightarrow> Inl ValueError
      | Some start \<Rightarrow>
          Inr (case utcoffset start of
                 None \<Rightarrow> total_seconds (clock_local e - micros start)
               | Some off \<Rightarrow> total_seconds (clock_utc e - (micros start - off))))"
  by (simp add: duration_try_def dt_sub_def Let_def split: option.splits)

text \<open>
  Claim C7. \<^verbatim>\<open>_calculate_session_duration\<close> never raises: the only exception its
  \<^verbatim>\<open>try\<close> block can meet is the \<^verbatim>\<open>ValueError\<close> of an unparseable start time
  (never the \<^verbatim>\<open>TypeError\<close> of subtracting a naive from an aware datetime, since
  "now" is read with the awareness of the start time), and the handler turns it into 0;
  a missing or empty start time gives 0; otherwise the result is the elapsed time in
  seconds, between naive readings or between instants in UTC.
\<close>

theorem session_duration_total:
  "(\<forall>err. duration_try e s = Inl err \<longrightarrow> err = ValueError \<and> fromisoformat e s = None) \<and>
   calculate_session_duration e None = 0 \<and>
   calculate_session_duration e (Some []) = 0 \<and>
   (fromisoformat e s = None \<longrightarrow> calculate_session_duration e (Some s) = 0) \<and>
   (\<forall>start. s \<noteq> [] \<and> fromisoformat e s = Some start \<longrightarrow>
      calculate_session_duration e (Some s) =
        (case utcoffset start of
           None \<Rightarrow> total_seconds (clock_local e - micros start)
         | Some off \<Rightarrow> total_seconds (clock_utc e - 0 - (micros start - off))))"
  by (auto simp: calculate_session_duration_def duration_try_cases split: option.splits)

theorem session_duration_total_witness:
  "fromisoformat (store_down []) ''yesterday'' = None \<and>
   duration_try (store_down []) ''yesterday'' = Inl ValueError \<and>
   calculate_session_duration (store_down []) (Some ''yesterday'') = 0 \<and>
   fromisoformat (store_down []) ''2024-01-01T10:00:00+01:00'' =
     Some \<lparr>micros = 7000000, utcoffset = Some 3600000000\<rparr> \<and>
   calculate_session_duration (store_down []) (Some ''2024-01-01T10:00:00+01:00'') = 3601 \<and>
   fromisoformat (store_down []) ''2024-01-01T10:00:00'' =
     Some \<lparr>micros = 7000000, utcoffset = None\<rparr> \<and>
   calculate_session_duration (store_down []) (Some ''2024-01-01T10:00:00'') = 2"
proof -
  have p: "fromisoformat (store_down []) ''yesterday'' = None"
    "fromisoformat (store_down []) ''2024-01-01T10:00:00+01:00'' =
       Some \<lparr>micros = 7000000, utcoffset = Some 3600000000\<rparr>"
    "fromisoformat (store_down []) ''2024-01-01T10:00:00'' =
       Some \<lparr>micros = 7000000, utcoffset = None\<rparr>"
    "clock_local (store_down []) = 9000000" "clock_utc (store_down []) = 8000000"
    by (simp_all add: store_down_def)
  have d: "duration_try (store_down []) ''yesterday'' = Inl ValueError"
    using p(1) by (simp add: duration_try_def)
  show ?thesis
    using session_duration_total [of "store_down []" "''yesterday''"]
      session_duration_total [of "store_down []" "''2024-01-01T10:00:00+01:00''"]
      session_duration_total [of "store_down []" "''2024-01-01T10:00:00''"]
      p d
    by (simp add: total_seconds_def)
qed

section \<open>Progress report\<close>

lemma percentage_bounds:
  fixes a t :: int
  assumes "0 \<le> a" "a \<le> t" "t \<noteq> 0"
  shows "0 \<le> real_of_int a / real_of_int t * 100" "real_of_int a / real_of_int t * 100 \<le> 100"
proof -
  from assms have t: "0 < real_of_int t" by simp
  from assms have "real_of_int a * 100 \<le> 100 * real_of_int t" by simp
  with t show "real_of_int a / real_of_int t * 100 \<le> 100" by (simp add: pos_divide_le_eq)
  from assms t show "0 \<le> real_of_int a / real_of_int t * 100" by simp
qed

lemma get_session_progress_fields:
  assumes "get_session_progress e svc sid = (Success p, svc', w)"
  shows "\<exists>s fb. load_session e svc sid = Some (s, fb) \<and>
     pr_questions_answered p =
       int (length (get_or (responses (get_or (map_of (fallback_sessions svc) sid) empty_session)) [])) \<and>
     pr_total_questions p =
       get_or (total_questions s)
         (int (length (if fb then get_or (question_ids (get_or (map_of (fallback_sessions svc) sid) empty_session)) []
                       else get_session_question_ids svc sid))) \<and>
     pr_questions_correct p =
       count_correct (get_or (responses (get_or (map_of (fallback_sessions svc) sid) empty_session)) []) \<and>
     pr_questions_remaining p = pr_total_questions p - pr_questions_answered p \<and>
     pr_progress_percentage p =
       (if pr_total_questions p = 0 then 0
        else real_of_int (pr_questions_answered p) / real_of_int (pr_total_questions p) * 100) \<and>
     pr_accuracy_percentage p =
       (if pr_questions_answered p = 0 then 0
        else real_of_int (pr_questions_correct p) / real_of_int (pr_questions_answered p) * 100) \<and>
     pr_fallback p = fb \<and> svc' = svc \<and> w = []"
proof (cases "load_session e svc sid")
  case None
  with assms show ?thesis by (simp add: get_session_progress_def)
next
  case (Some a)
  obtain s fb where a: "a = (s, fb)" by (cases a)
  from assms Some a
  have "p = fst (case get_session_progress e svc sid of (Success p, _) \<Rightarrow> (p, ()))"
    by simp
  with Some a show ?thesis
    using assms by (simp add: get_session_progress_def Let_def count_correct_def)
qed

text \<open>
  Claim C4, as amended. A progress report has
  \<open>questions_remaining = total_questions - questions_answered\<close>,
  \<open>progress_percentage = questions_answered / total_questions * 100\<close> (0 when
  \<open>total_questions\<close> is 0) and
  \<open>accuracy_percentage = questions_correct / questions_answered * 100\<close> (0 when
  \<open>questions_answered\<close> is 0), where \<open>questions_answered\<close> counts the responses stored
  for the session and \<open>total_questions\<close> is the session's own field (the number of its
  question ids when the field is absent); \<open>progress_percentage\<close> lies in \<open>[0, 100]\<close>
  whenever \<open>questions_answered\<close> does not exceed \<open>total_questions\<close>.
\<close>

theorem progress_report_formulas:
  assumes "get_session_progress e svc sid = (Success p, svc', w)"
  shows "pr_questions_remaining p = pr_total_questions p - pr_questions_answered p \<and>
    pr_progress_percentage p =
      (if pr_total_questions p = 0 then 0
       else real_of_int (pr_questions_answered p) / real_of_int (pr_total_questions p) * 100) \<and>
    pr_accuracy_percentage p =
      (if pr_questions_answered p = 0 then 0
       else real_of_int (pr_questions_correct p) / real_of_int (pr_questions_answered p) * 100) \<and>
    pr_questions_answered p =
      int (length (get_or (responses (get_or (map_of (fallback_sessions svc) sid) empty_session)) [])) \<and>
    (\<exists>s fb. load_session e svc sid = Some (s, fb) \<and>
       pr_total_questions p =
         get_or (total_questions s) (int (length (get_session_question_ids svc sid)))) \<and>
    (pr_questions_answered p \<le> pr_total_questions p \<longrightarrow>
       0 \<le> pr_progress_percentage p \<and> pr_progress_percentage p \<le> 100)"
proof -
  from get_session_progress_fields [OF assms] obtain s fb where
    l: "load_session e svc sid = Some (s, fb)" and
    a: "pr_questions_answered p =
       int (length (get_or (responses (get_or (map_of (fallback_sessions svc) sid) empty_session)) []))" and
    t: "pr_total_questions p =
       get_or (total_questions s)
         (int (length (if fb then get_or (question_ids (get_or (map_of (fallback_sessions svc) sid) empty_session)) []
                       else get_session_question_ids svc sid)))" and
    r: "pr_questions_remaining p = pr_total_questions p - pr_questions_answered p" and
    pp: "pr_progress_percentage p =
       (if pr_total_questions p = 0 then 0
        else real_of_int (pr_questions_answered p) / real_of_int (pr_total_questions p) * 100)" and
    ap: "pr_accuracy_percentage p =
       (if pr_questions_answered p = 0 then 0
        else real_of_int (pr_questions_correct p) / real_of_int (pr_questions_answered p) * 100)"
    by blast
  have q: "(if fb then get_or (question_ids (get_or (map_of (fallback_sessions svc) sid) empty_session)) []
            else get_session_question_ids svc sid) = get_session_question_ids svc sid"
    by (cases "map_of (fallback_sessions svc) sid")
       (simp_all add: get_session_question_ids_def get_or_def empty_session_def)
  have nn: "0 \<le> pr_questions_answered p" using a by simp
  have b: "pr_questions_answered p \<le> pr_total_questions p \<longrightarrow>
       0 \<le> pr_progress_percentage p \<and> pr_progress_percentage p \<le> 100"
    using pp nn percentage_bounds [of "pr_questions_answered p" "pr_total_questions p"]
    by (cases "pr_total_questions p = 0") simp_all
  from l t q have "\<exists>s fb. load_session e svc sid = Some (s, fb) \<and>
       pr_total_questions p =
         get_or (total_questions s) (int (length (get_session_question_ids svc sid)))"
    by auto
  with r pp ap a b show ?thesis by blast
qed

theorem progress_report_formulas_witness:
  "get_session_progress (store_down []) answered_service ''u1'' =
     (Success answered_report, answered_service, []) \<and>
   pr_questions_answered answered_report \<le> pr_total_questions answered_report \<and>
   pr_questions_remaining answered_report = 0 \<and>
   0 \<le> pr_progress_percentage answered_report \<and>
   pr_progress_percentage answered_report \<le> 100"
proof -
  have r: "get_session_progress (store_down []) answered_service ''u1'' =
     (Success answered_report, answered_service, [])"
    by code_simp
  have "pr_questions_answered answered_report \<le> pr_total_questions answered_report"
    by (simp add: answered_report_def)
  with progress_report_formulas [OF r] r show ?thesis
    by (simp add: answered_report_def)
qed

theorem progress_percentage_above_100:
  "progress_percentage_of (get_session_progress (store_down []) overfull_service ''u1'') = Some 200"
  by code_simp

section \<open>Session creation\<close>

text \<open>
  Claim C6. When the filter resolves to no question, \<^verbatim>\<open>create_session\<close> returns
  the failure "No questions found matching the specified filters", leaves
  \<^verbatim>\<open>fallback_sessions\<close> as it was and issues no write to the durable store.
\<close>

theorem create_session_no_questions:
  assumes "get_filtered_questions e svc f = Inr []"
  shows "create_session e svc uid name f limit =
     (Failure ''No questions found matching the specified filters'' False, svc, [])"
  using assms by (simp add: create_session_def)

theorem create_session_no_questions_witness:
  "get_filtered_questions (store_down []) service_0 no_filter = Inr [] \<and>
   create_session (store_down []) service_0 ''user'' ''practice'' no_filter None =
     (Failure ''No questions found matching the specified filters'' False, service_0, [])"
proof -
  have h: "get_filtered_questions (store_down []) service_0 no_filter = Inr []"
    by code_simp
  from create_session_no_questions [OF h] h show ?thesis by simp
qed

section \<open>Pause and resume\<close>

lemma same_but_activity_refl: "same_but_activity s s"
  by (simp add: same_but_activity_def)

lemma same_but_activity_fields:
  assumes "same_but_activity s s'"
  shows "question_ids s' = question_ids s" "current_question_index s' = current_question_index s"
    "responses s' = responses s"
proof -
  from assms have e: "s'\<lparr>is_active := is_active s, status := status s, last_activity := last_activity s\<rparr> = s"
    by (simp add: same_but_activity_def)
  have "question_ids s' = question_ids (s'\<lparr>is_active := is_active s, status := status s, last_activity := last_activity s\<rparr>)"
    by simp
  with e show "question_ids s' = question_ids s" by simp
  have "current_question_index s' = current_question_index (s'\<lparr>is_active := is_active s, status := status s, last_activity := last_activity s\<rparr>)"
    by simp
  with e show "current_question_index s' = current_question_index s" by simp
  have "responses s' = responses (s'\<lparr>is_active := is_active s, status := status s, last_activity := last_activity s\<rparr>)"
    by simp
  with e show "responses s' = responses s" by simp
qed

lemma set_active_frame:
  assumes "set_active flag st msg e svc sid = (r, svc', w)"
  shows "(\<forall>k. rel_option same_but_activity (map_of (fallback_sessions svc) k)
                 (map_of (fallback_sessions svc') k)) \<and>
         (\<forall>x \<in> set w. \<exists>p. x = Update sid p \<and> activity_patch p)"
proof (cases "supabase svc \<and> update_reply e = Data ()")
  case True
  with assms have "svc' = svc" "w = [Update sid (no_patch\<lparr>p_is_active := Some flag, p_last_activity := Some (now e 0)\<rparr>)]"
    by (auto simp: set_active_def Let_def)
  then show ?thesis
    by (simp add: option.rel_refl same_but_activity_refl activity_patch_def no_patch_def)
next
  case False
  show ?thesis
  proof (cases "map_of (fallback_sessions svc) sid")
    case None
    with False assms have "svc' = svc" "set w \<subseteq> {Update sid (no_patch\<lparr>p_is_active := Some flag, p_last_activity := Some (now e 0)\<rparr>)}"
      by (auto simp: set_active_def Let_def split: if_splits)
    then show ?thesis
      by (auto simp: option.rel_refl same_but_activity_refl activity_patch_def no_patch_def)
  next
    case (Some s)
    with False assms have
      s': "fallback_sessions svc' = AList.update sid
             (s\<lparr>is_active := Some flag, status := Some st, last_activity := Some (now e 1)\<rparr>)
             (fallback_sessions svc)" and
      w: "set w \<subseteq> {Update sid (no_patch\<lparr>p_is_active := Some flag, p_last_activity := Some (now e 0)\<rparr>)}"
      by (auto simp: set_active_def Let_def split: if_splits)
    have "rel_option same_but_activity (map_of (fallback_sessions svc) k)
                 (map_of (fallback_sessions svc') k)" for k
      using Some s'
      by (cases "k = sid")
         (simp_all add: update_conv' option.rel_refl same_but_activity_refl same_but_activity_def)
    with w show ?thesis
      by (auto simp: activity_patch_def no_patch_def)
  qed
qed


text \<open>
  Claim C8. \<^verbatim>\<open>pause_session\<close> and \<^verbatim>\<open>resume_session\<close> keep every entry of
  \<^verbatim>\<open>fallback_sessions\<close>, changing at most its \<^verbatim>\<open>is_active\<close>,
  \<^verbatim>\<open>status\<close> and \<^verbatim>\<open>last_activity\<close>: the question ids, the current index
  and the responses are as before, no entry appears, and the update sent to the durable
  store sets neither the index nor any counter.
\<close>

theorem pause_resume_frame:
  assumes "operation = pause_session \<or> operation = resume_session"
    and "operation e svc sid = (r, svc', w)"
  shows "(\<forall>k s. map_of (fallback_sessions svc) k = Some s \<longrightarrow>
            (\<exists>s'. map_of (fallback_sessions svc') k = Some s' \<and> same_but_activity s s' \<and>
               question_ids s' = question_ids s \<and>
               current_question_index s' = current_question_index s \<and>
               responses s' = responses s)) \<and>
         (\<forall>k. map_of (fallback_sessions svc) k = None \<longrightarrow>
            map_of (fallback_sessions svc') k = None) \<and>
         (\<forall>x \<in> set w. \<exists>p. x = Update sid p \<and> activity_patch p)"
proof -
  from assms obtain flag st msg where "set_active flag st msg e svc sid = (r, svc', w)"
    by (auto simp: pause_session_def resume_session_def)
  from set_active_frame [OF this] have
    rel: "\<And>k. rel_option same_but_activity (map_of (fallback_sessions svc) k)
                 (map_of (fallback_sessions svc') k)" and
    wr: "\<forall>x \<in> set w. \<exists>p. x = Update sid p \<and> activity_patch p"
    by blast+
  have kept: "\<exists>s'. map_of (fallback_sessions svc') k = Some s' \<and> same_but_activity s s' \<and>
               question_ids s' = question_ids s \<and>
               current_question_index s' = current_question_index s \<and>
               responses s' = responses s"
    if "map_of (fallback_sessions svc) k = Some s" for k s
  proof -
    from rel [of k] that obtain s' where
      s': "map_of (fallback_sessions svc') k = Some s'" "same_but_activity s s'"
      by (cases "map_of (fallback_sessions svc') k") auto
    with same_but_activity_fields [OF s'(2)] show ?thesis by simp
  qed
  have none: "map_of (fallback_sessions svc') k = None"
    if "map_of (fallback_sessions svc) k = None" for k
    using rel [of k] that by (cases "map_of (fallback_sessions svc') k") auto
  from kept none wr show ?thesis by blast
qed

theorem pause_resume_frame_witness:
  "\<exists>s s'. map_of (fallback_sessions created_service) ''u1'' = Some s \<and>
     map_of (fallback_sessions (after (pause_session (store_down []) created_service ''u1'')))
       ''u1'' = Some s' \<and>
     question_ids s' = question_ids s \<and>
     current_question_index s' = current_question_index s \<and>
     responses s' = responses s \<and> s' \<noteq> s"
proof -
  obtain r svc' w where
    run: "pause_session (store_down []) created_service ''u1'' = (r, svc', w)"
    by (cases "pause_session (store_down []) created_service ''u1''")
  have "map_of (fallback_sessions created_service) ''u1'' \<noteq> None"
    by code_simp
  then obtain s where s: "map_of (fallback_sessions created_service) ''u1'' = Some s"
    by blast
  have differs: "map_of (fallback_sessions (after (pause_session (store_down []) created_service ''u1'')))
       ''u1'' \<noteq> map_of (fallback_sessions created_service) ''u1''"
    by code_simp
  from pause_resume_frame
         [of pause_session "store_down []" created_service "''u1''" r svc' w] run s
  obtain s' where
    "map_of (fallback_sessions svc') ''u1'' = Some s'"
    "question_ids s' = question_ids s"
    "current_question_index s' = current_question_index s"
    "responses s' = responses s"
    by blast
  with s run differs show ?thesis by (auto simp: after_def)
qed

section \<open>Answer submission\<close>

lemma submit_answer_not_found:
  "fst (submit_answer e svc sid qid a t) \<noteq> Failure ''Session not found'' b"
proof (cases "(case (get_question_with_metadata e svc qid, map_of (fallback_sessions svc) sid) of
               (None, Some fs) \<Rightarrow> map_of (get_or (question_bank fs) []) qid
             | _ \<Rightarrow> get_question_with_metadata e svc qid)")
  case None
  then show ?thesis by (simp add: submit_answer_def Let_def)
next
  case (Some q)
  then show ?thesis by (simp add: submit_answer_def Let_def split: prod.splits)
qed

lemma update_session_stats_entry:
  assumes "map_of (fallback_sessions svc) sid = Some s"
  shows "\<exists>w. update_session_stats e svc sid =
           (svc\<lparr>fallback_sessions := AList.update sid
              (s\<lparr>questions_answered := Some (int (length (get_or (responses s) []))),
                 questions_correct := Some (count_correct (get_or (responses s) [])),
                 questions_incorrect := Some (count_incorrect (get_or (responses s) [])),
                 last_activity := Some (now e 2)\<rparr>) (fallback_sessions svc)\<rparr>, w) \<and>
         (\<forall>x \<in> set w. \<exists>p. x = Update sid p \<and> p_current_question_index p = None)"
  using assms by (simp add: update_session_stats_def Let_def no_patch_def)

lemma submit_answer_Failure:
  assumes "resolve_question e svc sid qid = None"
  shows "submit_answer e svc sid qid a t = (Failure ''Question not found'' False, svc, [])"
  using assms by (simp add: submit_answer_def resolve_question_def Let_def)

lemma submit_answer_Success:
  assumes "resolve_question e svc sid qid = Some q"
  shows "\<exists>r svc' w. submit_answer e svc sid qid a t = (Success r, svc', w) \<and>
     map_of (fallback_sessions svc') sid = Some (stored_session e svc sid qid a t q) \<and>
     (\<forall>k. k \<noteq> sid \<longrightarrow> map_of (fallback_sessions svc') k = map_of (fallback_sessions svc) k) \<and>
     supabase svc' = supabase svc \<and> fallback_provider svc' = fallback_provider svc \<and>
     sr_is_correct r = check_answer (correct_answer q) a \<and>
     sr_correct_answer r = correct_answer q \<and>
     sr_fallback r \<and>
     sr_response_id r =
       (case map_of (get_or (responses (get_or (map_of (fallback_sessions svc) sid) empty_session)) []) qid of
          Some existing \<Rightarrow> r_id existing | None \<Rightarrow> uuid4 e)"
proof (cases "supabase svc")
  case False
  with assms show ?thesis
    by (cases "map_of (fallback_sessions svc) sid")
       (simp_all add: submit_answer_def resolve_question_def Let_def stored_session_def update_conv'
          get_or_def empty_session_def)
next
  case True
  with assms show ?thesis
    by (cases "map_of (fallback_sessions svc) sid")
       (simp_all add: submit_answer_def resolve_question_def Let_def stored_session_def update_conv'
          get_or_def empty_session_def update_session_stats_def)
qed

lemma one_entry_per_key:
  "distinct (map fst rs) \<Longrightarrow> map_of rs k = Some v \<Longrightarrow>
   length (filter (\<lambda>kv. fst kv = k) rs) = 1"
proof (induction rs)
  case Nil
  then show ?case by simp
next
  case (Cons x rs)
  show ?case
  proof (cases "fst x = k")
    case True
    with Cons.prems have "k \<notin> fst ` set rs" by auto
    then have "filter (\<lambda>kv. fst kv = k) rs = []"
      by (auto simp: filter_empty_conv)
    with True show ?thesis by simp
  next
    case False
    with Cons show ?thesis by (cases x) auto
  qed
qed

lemma submit_answer_resolves:
  assumes "submit_answer e svc sid qid a t = (Success r, svc', w)"
  shows "\<exists>q. resolve_question e svc sid qid = Some q"
proof (cases "resolve_question e svc sid qid")
  case None
  from submit_answer_Failure [OF None, of a t] assms show ?thesis by simp
next
  case (Some q)
  then show ?thesis by blast
qed

lemma succeededE:
  assumes "succeeded x"
  obtains r svc' w where "x = (Success r, svc', w)"
  using assms by (cases x; cases "fst x") (auto simp: succeeded_def)

lemma length_dict_update:
  "length (AList.update k v al) = (if k \<in> fst ` set al then length al else Suc (length al))"
  by (induction al) auto

lemma stored_session_responses:
  "\<exists>rid. responses (stored_session e svc sid qid a t q) =
     Some (AList.update qid
             \<lparr>r_id = rid, r_session_id = sid, r_question_id = qid, user_answer = a,
              is_correct = check_answer (correct_answer q) a, time_taken = t,
              response_time = now e 0\<rparr>
             (get_or (responses (get_or (map_of (fallback_sessions svc) sid) empty_session)) [])) \<and>
     rid = (case map_of (get_or (responses (get_or (map_of (fallback_sessions svc) sid) empty_session)) []) qid of
              Some existing \<Rightarrow> r_id existing | None \<Rightarrow> uuid4 e)"
  by (cases "map_of (fallback_sessions svc) sid")
     (simp_all add: stored_session_def Let_def get_or_def empty_session_def)

lemma stored_session_counters:
  assumes "responses (stored_session e svc sid qid a t q) = Some rs"
  shows "questions_answered (stored_session e svc sid qid a t q) = Some (int (length rs))"
    "questions_correct (stored_session e svc sid qid a t q) = Some (count_correct rs)"
    "questions_incorrect (stored_session e svc sid qid a t q) = Some (count_incorrect rs)"
  using assms by (simp_all add: stored_session_def Let_def)

lemma resolve_question_Some:
  assumes "resolve_question e svc sid qid = Some q"
  shows "get_question_with_metadata e svc qid = Some q \<or>
     (get_question_with_metadata e svc qid = None \<and>
      (\<exists>fs. map_of (fallback_sessions svc) sid = Some fs \<and>
            map_of (get_or (question_bank fs) []) qid = Some q))"
  using assms by (auto simp: resolve_question_def split: option.splits)

text \<open>
  Claim C1. Two successful calls of \<^verbatim>\<open>submit_answer\<close> for the same session id and
  question id, one after the other. Each call grades its own answer, with
  \<^verbatim>\<open>_check_answer\<close>, against the key of the question it looks up (the row of the
  store, else the entry of the session's \<^verbatim>\<open>question_bank\<close>), and returns that
  grade. After each call the session's \<^verbatim>\<open>responses\<close> hold one record for the
  question; the dictionary has as many records after the second call as after the
  first, and the records of the other questions are the same; the second call returns
  the response id of the first. The record after the first call holds the first answer,
  its grade, its time taken and its time stamp; the record after the second call holds
  the second answer, the grade of the second answer, the second time taken and the
  second time stamp, under the response id of the first. After each call
  \<^verbatim>\<open>questions_answered\<close> is the number of records, \<^verbatim>\<open>questions_correct\<close> the
  number of records graded right and \<^verbatim>\<open>questions_incorrect\<close> the number of
  records graded wrong, over the whole dictionary. The keys of a dictionary are
  distinct.
\<close>

theorem resubmission_overwrites:
  assumes wf: "distinct (map fst (get_or (responses (get_or (map_of (fallback_sessions svc) sid) empty_session)) []))"
    and first: "submit_answer e1 svc sid qid a1 t1 = (Success r1, svc1, w1)"
    and second: "submit_answer e2 svc1 sid qid a2 t2 = (Success r2, svc2, w2)"
  shows "\<exists>q1 q2 s1 s2 rs1 rs2.
     (get_question_with_metadata e1 svc qid = Some q1 \<or>
      (get_question_with_metadata e1 svc qid = None \<and>
       (\<exists>fs. map_of (fallback_sessions svc) sid = Some fs \<and>
             map_of (get_or (question_bank fs) []) qid = Some q1))) \<and>
     (get_question_with_metadata e2 svc1 qid = Some q2 \<or>
      (get_question_with_metadata e2 svc1 qid = None \<and>
       (\<exists>fs. map_of (fallback_sessions svc1) sid = Some fs \<and>
             map_of (get_or (question_bank fs) []) qid = Some q2))) \<and>
     sr_is_correct r1 = check_answer (correct_answer q1) a1 \<and>
     sr_is_correct r2 = check_answer (correct_answer q2) a2 \<and>
     sr_correct_answer r1 = correct_answer q1 \<and>
     sr_correct_answer r2 = correct_answer q2 \<and>
     map_of (fallback_sessions svc1) sid = Some s1 \<and> responses s1 = Some rs1 \<and>
     map_of (fallback_sessions svc2) sid = Some s2 \<and> responses s2 = Some rs2 \<and>
     length (filter (\<lambda>kv. fst kv = qid) rs1) = 1 \<and>
     length (filter (\<lambda>kv. fst kv = qid) rs2) = 1 \<and>
     length rs2 = length rs1 \<and>
     (\<forall>k. k \<noteq> qid \<longrightarrow> map_of rs2 k = map_of rs1 k) \<and>
     sr_response_id r2 = sr_response_id r1 \<and>
     map_of rs1 qid =
       Some \<lparr>r_id = sr_response_id r1, r_session_id = sid, r_question_id = qid,
             user_answer = a1, is_correct = check_answer (correct_answer q1) a1,
             time_taken = t1, response_time = now e1 0\<rparr> \<and>
     map_of rs2 qid =
       Some \<lparr>r_id = sr_response_id r1, r_session_id = sid, r_question_id = qid,
             user_answer = a2, is_correct = check_answer (correct_answer q2) a2,
             time_taken = t2, response_time = now e2 0\<rparr> \<and>
     questions_answered s1 = Some (int (length rs1)) \<and>
     questions_correct s1 = Some (int (length (filter is_correct (map snd rs1)))) \<and>
     questions_incorrect s1 = Some (int (length (filter (\<lambda>r. \<not> is_correct r) (map snd rs1)))) \<and>
     questions_answered s2 = Some (int (length rs2)) \<and>
     questions_correct s2 = Some (int (length (filter is_correct (map snd rs2)))) \<and>
     questions_incorrect s2 = Some (int (length (filter (\<lambda>r. \<not> is_correct r) (map snd rs2))))"
proof -
  let ?rs0 = "get_or (responses (get_or (map_of (fallback_sessions svc) sid) empty_session)) []"
  from submit_answer_resolves [OF first] obtain q1 where
    q1: "resolve_question e1 svc sid qid = Some q1" by blast
  from submit_answer_resolves [OF second] obtain q2 where
    q2: "resolve_question e2 svc1 sid qid = Some q2" by blast
  note found1 = resolve_question_Some [OF q1]
  note found2 = resolve_question_Some [OF q2]
  let ?s1 = "stored_session e1 svc sid qid a1 t1 q1"
  let ?s2 = "stored_session e2 svc1 sid qid a2 t2 q2"
  from submit_answer_Success [OF q1, of a1 t1] first have
    m1: "map_of (fallback_sessions svc1) sid = Some ?s1" and
    c1: "sr_is_correct r1 = check_answer (correct_answer q1) a1" and
    k1: "sr_correct_answer r1 = correct_answer q1" and
    id1: "sr_response_id r1 =
       (case map_of ?rs0 qid of Some existing \<Rightarrow> r_id existing | None \<Rightarrow> uuid4 e1)"
    by auto
  from m1 have rs0': "get_or (responses (get_or (map_of (fallback_sessions svc1) sid) empty_session)) []
      = get_or (responses ?s1) []"
    by (simp add: get_or_def)
  from submit_answer_Success [OF q2, of a2 t2] second have
    m2: "map_of (fallback_sessions svc2) sid = Some ?s2" and
    c2: "sr_is_correct r2 = check_answer (correct_answer q2) a2" and
    k2: "sr_correct_answer r2 = correct_answer q2" and
    id2: "sr_response_id r2 =
       (case map_of (get_or (responses ?s1) []) qid of
          Some existing \<Rightarrow> r_id existing | None \<Rightarrow> uuid4 e2)"
    by (auto simp: rs0')
  let ?v1 = "\<lparr>r_id = sr_response_id r1, r_session_id = sid, r_question_id = qid, user_answer = a1,
              is_correct = check_answer (correct_answer q1) a1, time_taken = t1,
              response_time = now e1 0\<rparr>"
  let ?rs1 = "AList.update qid ?v1 ?rs0"
  from stored_session_responses [of e1 svc sid qid a1 t1 q1] id1 have
    r1: "responses ?s1 = Some ?rs1" by auto
  then have g1: "get_or (responses ?s1) [] = ?rs1" by (simp add: get_or_def)
  have look1: "map_of ?rs1 qid = Some ?v1" by (simp add: update_conv')
  from id2 g1 look1 have same_id: "sr_response_id r2 = sr_response_id r1" by simp
  let ?v2 = "\<lparr>r_id = sr_response_id r1, r_session_id = sid, r_question_id = qid, user_answer = a2,
              is_correct = check_answer (correct_answer q2) a2, time_taken = t2,
              response_time = now e2 0\<rparr>"
  let ?rs2 = "AList.update qid ?v2 ?rs1"
  from stored_session_responses [of e2 svc1 sid qid a2 t2 q2] rs0' g1 look1 have
    r2: "responses ?s2 = Some ?rs2" by auto
  have d1: "distinct (map fst ?rs1)" using wf by (simp add: distinct_update)
  then have d2: "distinct (map fst ?rs2)" by (rule distinct_update)
  have look2: "map_of ?rs2 qid = Some ?v2" by (simp add: update_conv')
  from one_entry_per_key [OF d1 look1] have one1: "length (filter (\<lambda>kv. fst kv = qid) ?rs1) = 1" .
  from one_entry_per_key [OF d2 look2] have one2: "length (filter (\<lambda>kv. fst kv = qid) ?rs2) = 1" .
  have "qid \<in> fst ` set ?rs1" using look1 by (metis map_of_eq_None_iff option.distinct(1))
  then have len: "length ?rs2 = length ?rs1" by (simp only: length_dict_update if_True)
  have others: "\<forall>k. k \<noteq> qid \<longrightarrow> map_of ?rs2 k = map_of ?rs1 k"
    by (simp add: update_conv')
  note n1 = stored_session_counters [OF r1, unfolded count_correct_def count_incorrect_def]
  note n2 = stored_session_counters [OF r2, unfolded count_correct_def count_incorrect_def]
  from found1 found2 c1 c2 k1 k2 m1 r1 m2 r2 one1 one2 len others same_id look1 look2 n1 n2
  show ?thesis by blast
qed

theorem resubmission_overwrites_witness:
  "distinct (map fst (get_or (responses (get_or (map_of (fallback_sessions created_service) ''u1'')
      empty_session)) [])) \<and>
   succeeded (submit_answer (store_down []) created_service ''u1'' ''q1'' ''b'' 5) \<and>
   succeeded (submit_answer (store_down [])
     (after (submit_answer (store_down []) created_service ''u1'' ''q1'' ''b'' 5))
     ''u1'' ''q1'' ''A'' 9) \<and>
   (\<exists>s1 s2.
      map_of (fallback_sessions
        (after (submit_answer (store_down []) created_service ''u1'' ''q1'' ''b'' 5))) ''u1'' = Some s1 \<and>
      map_of (fallback_sessions
        (after (submit_answer (store_down [])
           (after (submit_answer (store_down []) created_service ''u1'' ''q1'' ''b'' 5))
           ''u1'' ''q1'' ''A'' 9))) ''u1'' = Some s2 \<and>
      responses s1 =
        Some [(''q1'', \<lparr>r_id = ''u1'', r_session_id = ''u1'', r_question_id = ''q1'',
                 user_answer = ''b'', is_correct = False, time_taken = 5,
                 response_time = ''2024-01-01T10:00:00''\<rparr>)] \<and>
      responses s2 =
        Some [(''q1'', \<lparr>r_id = ''u1'', r_session_id = ''u1'', r_question_id = ''q1'',
                 user_answer = ''A'', is_correct = True, time_taken = 9,
                 response_time = ''2024-01-01T10:00:00''\<rparr>)] \<and>
      questions_answered s1 = Some 1 \<and> questions_correct s1 = Some 0 \<and>
      questions_incorrect s1 = Some 1 \<and>
      questions_answered s2 = Some 1 \<and> questions_correct s2 = Some 1 \<and>
      questions_incorrect s2 = Some 0)"
proof -
  let ?S1 = "after (submit_answer (store_down []) created_service ''u1'' ''q1'' ''b'' 5)"
  let ?S2 = "after (submit_answer (store_down []) ?S1 ''u1'' ''q1'' ''A'' 9)"
  have wf: "distinct (map fst (get_or (responses (get_or (map_of (fallback_sessions created_service) ''u1'')
      empty_session)) []))"
    by code_simp
  have ok1: "succeeded (submit_answer (store_down []) created_service ''u1'' ''q1'' ''b'' 5)"
    by code_simp
  have ok2: "succeeded (submit_answer (store_down []) ?S1 ''u1'' ''q1'' ''A'' 9)"
    by code_simp
  have bank1: "get_question_with_metadata (store_down []) created_service ''q1'' = None"
    "map_option (\<lambda>fs. map_of (get_or (question_bank fs) []) ''q1'')
       (map_of (fallback_sessions created_service) ''u1'') = Some (Some question_A)"
    by code_simp+
  have bank2: "get_question_with_metadata (store_down []) ?S1 ''q1'' = None"
    "map_option (\<lambda>fs. map_of (get_or (question_bank fs) []) ''q1'')
       (map_of (fallback_sessions ?S1) ''u1'') = Some (Some question_A)"
    by code_simp+
  have grades: "\<not> check_answer (correct_answer question_A) ''b''"
    "check_answer (correct_answer question_A) ''A''"
    by code_simp+
  have before: "get_or (responses (get_or (map_of (fallback_sessions created_service) ''u1'')
      empty_session)) [] = []"
    by code_simp
  from ok1 obtain r1 svc1 w1 where
    first: "submit_answer (store_down []) created_service ''u1'' ''q1'' ''b'' 5 = (Success r1, svc1, w1)"
    by (rule succeededE)
  then have a1: "?S1 = svc1" by (simp add: after_def)
  from ok2 a1 obtain r2 svc2 w2 where
    second: "submit_answer (store_down []) svc1 ''u1'' ''q1'' ''A'' 9 = (Success r2, svc2, w2)"
    by (auto elim: succeededE)
  from a1 second have a2: "?S2 = svc2" by (simp add: after_def)
  have stamp: "now (store_down []) 0 = ''2024-01-01T10:00:00''" by code_simp
  have rid: "sr_response_id r1 = ''u1''"
  proof -
    have "sr_response_id (case fst (submit_answer (store_down []) created_service ''u1'' ''q1'' ''b'' 5)
        of Success r \<Rightarrow> r) = ''u1''"
      by code_simp
    with first show ?thesis by simp
  qed
  from resubmission_overwrites [OF wf first second] show ?thesis
  proof (elim exE conjE)
    fix q1 q2 s1 s2 rs1 rs2
    assume
    f1: "get_question_with_metadata (store_down []) created_service ''q1'' = Some q1 \<or>
      (get_question_with_metadata (store_down []) created_service ''q1'' = None \<and>
       (\<exists>fs. map_of (fallback_sessions created_service) ''u1'' = Some fs \<and>
             map_of (get_or (question_bank fs) []) ''q1'' = Some q1))"
    and
    f2: "get_question_with_metadata (store_down []) svc1 ''q1'' = Some q2 \<or>
      (get_question_with_metadata (store_down []) svc1 ''q1'' = None \<and>
       (\<exists>fs. map_of (fallback_sessions svc1) ''u1'' = Some fs \<and>
             map_of (get_or (question_bank fs) []) ''q1'' = Some q2))"
    and
    s1: "map_of (fallback_sessions svc1) ''u1'' = Some s1" "responses s1 = Some rs1"
    and
    s2: "map_of (fallback_sessions svc2) ''u1'' = Some s2" "responses s2 = Some rs2"
    and
    one: "length (filter (\<lambda>kv. fst kv = ''q1'') rs1) = 1"
       "length (filter (\<lambda>kv. fst kv = ''q1'') rs2) = 1"
    and
    len: "length rs2 = length rs1"
    and
    l1: "map_of rs1 ''q1'' =
       Some \<lparr>r_id = sr_response_id r1, r_session_id = ''u1'', r_question_id = ''q1'',
             user_answer = ''b'', is_correct = check_answer (correct_answer q1) ''b'',
             time_taken = 5, response_time = now (store_down []) 0\<rparr>"
    and
    l2: "map_of rs2 ''q1'' =
       Some \<lparr>r_id = sr_response_id r1, r_session_id = ''u1'', r_question_id = ''q1'',
             user_answer = ''A'', is_correct = check_answer (correct_answer q2) ''A'',
             time_taken = 9, response_time = now (store_down []) 0\<rparr>"
    and
    n1: "questions_answered s1 = Some (int (length rs1))"
       "questions_correct s1 = Some (int (length (filter is_correct (map snd rs1))))"
       "questions_incorrect s1 = Some (int (length (filter (\<lambda>r. \<not> is_correct r) (map snd rs1))))"
    and
    n2: "questions_answered s2 = Some (int (length rs2))"
       "questions_correct s2 = Some (int (length (filter is_correct (map snd rs2))))"
       "questions_incorrect s2 = Some (int (length (filter (\<lambda>r. \<not> is_correct r) (map snd rs2))))"
  from f1 bank1 have q1: "q1 = question_A" by auto
  from f2 bank2 a1 have q2: "q2 = question_A" by auto
  have single: "rs = [(k, v)]"
    if "length (filter (\<lambda>kv. fst kv = k) rs) = 1" "length rs = 1" "map_of rs k = Some v"
    for rs :: "(string \<times> response) list" and k v
  proof -
    from that(2) obtain x where rs: "rs = [x]" by (cases rs) auto
    with that(1,3) show ?thesis by (cases x) (auto split: if_splits)
  qed
  have "length rs1 = 1"
  proof -
    have "map_option (\<lambda>s. map_option length (responses s)) (map_of (fallback_sessions ?S1) ''u1'')
        = Some (Some 1)"
      by code_simp
    with a1 s1 show ?thesis by simp
  qed
  with len have lens: "length rs1 = 1" "length rs2 = 1" by simp_all
  from single [OF one(1) lens(1) l1] q1 grades rid stamp have
    e1: "rs1 = [(''q1'', \<lparr>r_id = ''u1'', r_session_id = ''u1'', r_question_id = ''q1'',
                 user_answer = ''b'', is_correct = False, time_taken = 5,
                 response_time = ''2024-01-01T10:00:00''\<rparr>)]"
    by simp
  from single [OF one(2) lens(2) l2] q2 grades rid stamp have
    e2: "rs2 = [(''q1'', \<lparr>r_id = ''u1'', r_session_id = ''u1'', r_question_id = ''q1'',
                 user_answer = ''A'', is_correct = True, time_taken = 9,
                 response_time = ''2024-01-01T10:00:00''\<rparr>)]"
    by simp
  from n1 e1 have c1: "questions_answered s1 = Some 1" "questions_correct s1 = Some 0"
    "questions_incorrect s1 = Some 1" by simp_all
  from n2 e2 have c2: "questions_answered s2 = Some 1" "questions_correct s2 = Some 1"
    "questions_incorrect s2 = Some 0" by simp_all
  from s1 s2 e1 e2 c1 c2 a1 a2 have
    "\<exists>s1 s2. map_of (fallback_sessions ?S1) ''u1'' = Some s1 \<and>
      map_of (fallback_sessions ?S2) ''u1'' = Some s2 \<and>
      responses s1 =
        Some [(''q1'', \<lparr>r_id = ''u1'', r_session_id = ''u1'', r_question_id = ''q1'',
                 user_answer = ''b'', is_correct = False, time_taken = 5,
                 response_time = ''2024-01-01T10:00:00''\<rparr>)] \<and>
      responses s2 =
        Some [(''q1'', \<lparr>r_id = ''u1'', r_session_id = ''u1'', r_question_id = ''q1'',
                 user_answer = ''A'', is_correct = True, time_taken = 9,
                 response_time = ''2024-01-01T10:00:00''\<rparr>)] \<and>
      questions_answered s1 = Some 1 \<and> questions_correct s1 = Some 0 \<and>
      questions_incorrect s1 = Some 1 \<and>
      questions_answered s2 = Some 1 \<and> questions_correct s2 = Some 1 \<and>
      questions_incorrect s2 = Some 0"
    by simp
  with wf ok1 ok2 show ?thesis by blast
  qed
qed

text \<open>
  Claim C9. \<^verbatim>\<open>submit_answer\<close> never answers "Session not found". For a session id
  with no entry in \<^verbatim>\<open>fallback_sessions\<close>, whatever the durable store holds, and a
  question id the store resolves, it succeeds, and leaves an entry for the session id
  with an empty list of question ids and the one response, under a fresh response id.
\<close>

theorem submit_answer_unknown_session:
  "(\<forall>b. fst (submit_answer e svc sid qid a t) \<noteq> Failure ''Session not found'' b) \<and>
   (map_of (fallback_sessions svc) sid = None \<and> get_question_with_metadata e svc qid = Some q \<longrightarrow>
     (\<exists>r svc' w s'. submit_answer e svc sid qid a t = (Success r, svc', w) \<and>
        map_of (fallback_sessions svc') sid = Some s' \<and>
        s_id s' = Some sid \<and> question_ids s' = Some [] \<and>
        responses s' =
          Some [(qid, \<lparr>r_id = uuid4 e, r_session_id = sid, r_question_id = qid,
                       user_answer = a, is_correct = check_answer (correct_answer q) a,
                       time_taken = t, response_time = now e 0\<rparr>)] \<and>
        sr_response_id r = uuid4 e \<and> sr_is_correct r = check_answer (correct_answer q) a))"
proof (intro conjI allI impI)
  fix b show "fst (submit_answer e svc sid qid a t) \<noteq> Failure ''Session not found'' b"
    by (rule submit_answer_not_found)
next
  assume h: "map_of (fallback_sessions svc) sid = None \<and> get_question_with_metadata e svc qid = Some q"
  then have "resolve_question e svc sid qid = Some q"
    by (simp add: resolve_question_def)
  from submit_answer_Success [OF this, of a t] obtain r svc' w where
    "submit_answer e svc sid qid a t = (Success r, svc', w)"
    "map_of (fallback_sessions svc') sid = Some (stored_session e svc sid qid a t q)"
    "sr_is_correct r = check_answer (correct_answer q) a"
    "sr_response_id r =
       (case map_of (get_or (responses (get_or (map_of (fallback_sessions svc) sid) empty_session)) []) qid of
          Some existing \<Rightarrow> r_id existing | None \<Rightarrow> uuid4 e)"
    by blast
  moreover from h have "s_id (stored_session e svc sid qid a t q) = Some sid"
    "question_ids (stored_session e svc sid qid a t q) = Some []"
    "responses (stored_session e svc sid qid a t q) =
          Some [(qid, \<lparr>r_id = uuid4 e, r_session_id = sid, r_question_id = qid,
                       user_answer = a, is_correct = check_answer (correct_answer q) a,
                       time_taken = t, response_time = now e 0\<rparr>)]"
    by (simp_all add: stored_session_def Let_def empty_session_def get_or_def)
  moreover from h have "(case map_of (get_or (responses (get_or (map_of (fallback_sessions svc) sid) empty_session)) []) qid of
          Some existing \<Rightarrow> r_id existing | None \<Rightarrow> uuid4 e) = uuid4 e"
    by (simp add: get_or_def empty_session_def)
  ultimately show "\<exists>r svc' w s'. submit_answer e svc sid qid a t = (Success r, svc', w) \<and>
        map_of (fallback_sessions svc') sid = Some s' \<and>
        s_id s' = Some sid \<and> question_ids s' = Some [] \<and>
        responses s' =
          Some [(qid, \<lparr>r_id = uuid4 e, r_session_id = sid, r_question_id = qid,
                       user_answer = a, is_correct = check_answer (correct_answer q) a,
                       time_taken = t, response_time = now e 0\<rparr>)] \<and>
        sr_response_id r = uuid4 e \<and> sr_is_correct r = check_answer (correct_answer q) a"
    by auto
qed

theorem submit_answer_unknown_session_witness:
  "map_of (fallback_sessions service_0) ''ghost'' = None \<and>
   get_question_with_metadata (store_up question_A) service_0 ''q1'' = Some question_A \<and>
   (\<exists>r svc' w s'. submit_answer (store_up question_A) service_0 ''ghost'' ''q1'' ''a'' 3 =
        (Success r, svc', w) \<and>
      map_of (fallback_sessions svc') ''ghost'' = Some s' \<and> question_ids s' = Some [] \<and>
      sr_response_id r = ''u2'')"
proof -
  have h: "map_of (fallback_sessions service_0) ''ghost'' = None"
    "get_question_with_metadata (store_up question_A) service_0 ''q1'' = Some question_A"
    by code_simp+
  have u: "uuid4 (store_up question_A) = ''u2''" by code_simp
  from submit_answer_unknown_session
         [of "store_up question_A" service_0 "''ghost''" "''q1''" "''a''" 3 question_A] h u
  show ?thesis by auto
qed

section \<open>The current question\<close>

lemma get_current_question_Success:
  assumes "get_current_question e svc sid = (Success r, svc', w)"
  shows "\<exists>s fb. load_session e svc sid = Some (s, fb) \<and>
     cq_current_index r = get_or (current_question_index s) 0 \<and>
     cq_total_questions r = int (length (session_question_ids svc sid s fb)) \<and>
     cq_total_questions r \<noteq> 0 \<and>
     cq_progress_percentage r =
       real_of_int (cq_current_index r) / real_of_int (cq_total_questions r) * 100 \<and>
     cq_questions_answered r = get_or (questions_answered s) 0 \<and>
     cq_fallback r = fb"
proof (cases "load_session e svc sid")
  case None
  with assms show ?thesis by (simp add: get_current_question_def)
next
  case (Some a)
  obtain s fb where a: "a = (s, fb)" by (cases a)
  let ?qids = "session_question_ids svc sid s fb"
  let ?i = "get_or (current_question_index s) 0"
  from assms Some a have ne: "?qids \<noteq> []"
    by (auto simp: get_current_question_def Let_def split: if_splits)
  with assms Some a have lt: "\<not> ?i \<ge> int (length ?qids)"
    by (auto simp: get_current_question_def Let_def split: if_splits)
  with ne assms Some a obtain qid where qid: "py_index ?qids ?i = Inr qid"
    by (cases "py_index ?qids ?i") (auto simp: get_current_question_def Let_def)
  with lt ne assms Some a obtain q where q: "get_question_with_metadata e svc qid = Some q"
    by (cases "get_question_with_metadata e svc qid") (auto simp: get_current_question_def Let_def)
  from assms Some a ne lt qid q have
    "r = fst (case get_current_question e svc sid of (Success r, _) \<Rightarrow> (r, ()))"
    by simp
  with Some a ne lt qid q show ?thesis
    by (simp add: get_current_question_def Let_def)
qed


text \<open>
  Claim C10. The \<^verbatim>\<open>progress_percentage\<close> in the \<^verbatim>\<open>session_info\<close> of
  \<^verbatim>\<open>get_current_question\<close> is the current index over the number of question ids,
  times 100: the position of the cursor, not the share of answered questions. For a
  session of two questions with the first one answered and the cursor still on it,
  \<^verbatim>\<open>get_current_question\<close> reports 0 and \<^verbatim>\<open>get_session_progress\<close> reports 50.
\<close>

theorem cursor_progress_percentage:
  "(get_current_question e svc sid = (Success r, svc', w) \<longrightarrow>
      (\<exists>idx n. cursor e svc sid = Some (idx, n) \<and> n \<noteq> 0 \<and>
         cq_progress_percentage r = real_of_int idx / real_of_int n * 100)) \<and>
   cursor_percentage_of (get_current_question (store_up question_A) half_done_service ''u1'')
     = Some 0 \<and>
   progress_percentage_of (get_session_progress (store_up question_A) half_done_service ''u1'')
     = Some 50"
proof (intro conjI impI)
  assume "get_current_question e svc sid = (Success r, svc', w)"
  from get_current_question_Success [OF this]
  show "\<exists>idx n. cursor e svc sid = Some (idx, n) \<and> n \<noteq> 0 \<and>
         cq_progress_percentage r = real_of_int idx / real_of_int n * 100"
    by (auto simp: cursor_def)
next
  show "cursor_percentage_of (get_current_question (store_up question_A) half_done_service ''u1'')
     = Some 0"
    by code_simp
next
  show "progress_percentage_of (get_session_progress (store_up question_A) half_done_service ''u1'')
     = Some 50"
    by code_simp
qed

theorem cursor_progress_percentage_witness:
  "succeeded (get_current_question (store_up question_A) half_done_service ''u1'') \<and>
   cursor (store_up question_A) half_done_service ''u1'' = Some (0, 2) \<and>
   (\<exists>r. fst (get_current_question (store_up question_A) half_done_service ''u1'') = Success r \<and>
      cq_progress_percentage r = 0 / 2 * 100)"
proof -
  have ok: "succeeded (get_current_question (store_up question_A) half_done_service ''u1'')"
    by code_simp
  have c: "cursor (store_up question_A) half_done_service ''u1'' = Some (0, 2)"
    by code_simp
  from ok obtain r svc' w where
    run: "get_current_question (store_up question_A) half_done_service ''u1'' = (Success r, svc', w)"
    by (rule succeededE)
  from cursor_progress_percentage
         [of "store_up question_A" half_done_service "''u1''" r svc' w] run c ok
  show ?thesis by auto
qed

section \<open>Navigation\<close>

lemma store_index_result:
  "store_index e svc sid s fb i = (r, svc', w) \<Longrightarrow>
     r = Success \<lparr>nv_current_index = i, nv_fallback = fb\<rparr> \<and>
     (if fb then w = [] \<and>
        fallback_sessions svc' = AList.update sid
          (s\<lparr>current_question_index := Some i, last_activity := Some (now e 0)\<rparr>)
          (fallback_sessions svc) \<and>
        supabase svc' = supabase svc
      else svc' = svc \<and>
        w = [Update sid (no_patch\<lparr>p_current_question_index := Some i,
                                   p_last_activity := Some (now e 0)\<rparr>)])"
  by (auto simp: store_index_def)

lemma load_session_fallback:
  assumes "load_session e svc sid = Some (s, True)"
  shows "map_of (fallback_sessions svc) sid = Some s"
    "(if supabase svc then (case session_reply e of Data (row # _) \<Rightarrow> Some row | _ \<Rightarrow> None)
      else None) = None"
  using assms by (auto simp: load_session_def split: option.splits)

lemma cursor_after_store:
  assumes l: "load_session e svc sid = Some (s, True)"
    and f: "fallback_sessions svc' = AList.update sid
          (s\<lparr>current_question_index := Some i, last_activity := t\<rparr>) (fallback_sessions svc)"
    and sb: "supabase svc' = supabase svc"
  shows "cursor e svc' sid =
     Some (i, int (length (session_question_ids svc sid s True)))"
proof -
  from load_session_fallback [OF l] sb f
  have "load_session e svc' sid =
      Some (s\<lparr>current_question_index := Some i, last_activity := t\<rparr>, True)"
    by (simp add: load_session_def update_conv')
  then show ?thesis
    by (simp add: cursor_def session_question_ids_def get_or_def)
qed

lemma navigate_cases:
  assumes l: "load_session e svc sid = Some (s, fb)"
  shows "navigate_to_question e svc sid d =
     (let qids = session_question_ids svc sid s fb;
          idx = get_or (current_question_index s) 0
      in if qids = [] then (Failure ''No questions found for this session'' False, svc, [])
         else if d = ''next'' then
           (if idx \<ge> int (length qids) - 1 then
              (Failure ''Cannot move beyond the last question'' False, svc, [])
            else store_index e svc sid s fb (idx + 1))
         else if d = ''previous'' then
           (if idx \<le> 0 then (Failure ''Cannot move before the first question'' False, svc, [])
            else store_index e svc sid s fb (idx - 1))
         else (Failure ''Invalid navigation direction'' False, svc, []))"
  using l by (simp add: navigate_to_question_def Let_def)

lemma jump_cases:
  assumes l: "load_session e svc sid = Some (s, fb)"
  shows "jump_to_question e svc sid i =
     (let qids = session_question_ids svc sid s fb
      in if qids = [] then (Failure ''No questions found for this session'' False, svc, [])
         else if i < 0 \<or> i \<ge> int (length qids) then
           (Failure ''Invalid question index'' False, svc, [])
         else store_index e svc sid s fb i)"
  using l by (simp add: jump_to_question_def Let_def)

lemma store_index_not_Failure: "store_index e svc sid s fb i \<noteq> (Failure m b, svc', w)"
  by (simp add: store_index_def)

lemma navigate_Failure_unchanged:
  assumes "navigate_to_question e svc sid d = (Failure m b, svc', w)"
  shows "svc' = svc \<and> w = []"
proof (cases "load_session e svc sid")
  case None
  with assms show ?thesis by (simp add: navigate_to_question_def)
next
  case (Some a)
  obtain s fb where "a = (s, fb)" by (cases a)
  with Some assms show ?thesis
    by (auto simp: navigate_cases Let_def store_index_not_Failure split: if_splits)
qed

lemma jump_Failure_unchanged:
  assumes "jump_to_question e svc sid i = (Failure m b, svc', w)"
  shows "svc' = svc \<and> w = []"
proof (cases "load_session e svc sid")
  case None
  with assms show ?thesis by (simp add: jump_to_question_def)
next
  case (Some a)
  obtain s fb where "a = (s, fb)" by (cases a)
  with Some assms show ?thesis
    by (auto simp: jump_cases Let_def store_index_not_Failure split: if_splits)
qed

lemma store_index_stored:
  assumes l: "load_session e svc sid = Some (s, fb)"
    and st: "store_index e svc sid s fb i = (Success r, svc', w)"
  shows "nv_current_index r = i \<and>
     index_stored e svc svc' w sid r (int (length (session_question_ids svc sid s fb)))"
proof (cases fb)
  case True
  from store_index_result [OF st] True have
    r: "r = \<lparr>nv_current_index = i, nv_fallback = True\<rparr>" and w: "w = []" and
    f: "fallback_sessions svc' = AList.update sid
          (s\<lparr>current_question_index := Some i, last_activity := Some (now e 0)\<rparr>)
          (fallback_sessions svc)" and sb: "supabase svc' = supabase svc"
    by auto
  from l True have l': "load_session e svc sid = Some (s, True)" by simp
  from cursor_after_store [OF l' f sb] r w True show ?thesis
    by (simp add: index_stored_def)
next
  case False
  from store_index_result [OF st] False show ?thesis
    by (auto simp: index_stored_def)
qed

lemma navigate_Success:
  assumes c: "cursor e svc sid = Some (idx, n)"
    and run: "navigate_to_question e svc sid d = (Success r, svc', w)"
    and inv: "0 \<le> idx" "idx \<le> n"
  shows "0 \<le> nv_current_index r \<and> nv_current_index r < n \<and> index_stored e svc svc' w sid r n"
proof -
  from c obtain s fb where l: "load_session e svc sid = Some (s, fb)"
    and idx: "idx = get_or (current_question_index s) 0"
    and n: "n = int (length (session_question_ids svc sid s fb))"
    by (auto simp: cursor_def)
  from run l idx n consider
    (nxt) "d = ''next''" "\<not> idx \<ge> n - 1" "store_index e svc sid s fb (idx + 1) = (Success r, svc', w)"
    | (prv) "d = ''previous''" "\<not> idx \<le> 0" "store_index e svc sid s fb (idx - 1) = (Success r, svc', w)"
    by (auto simp: navigate_cases Let_def split: if_splits)
  then show ?thesis
  proof cases
    case nxt
    from store_index_stored [OF l nxt(3)] nxt(2) inv n show ?thesis by auto
  next
    case prv
    from store_index_stored [OF l prv(3)] prv(2) inv n show ?thesis by auto
  qed
qed

lemma jump_Success:
  assumes c: "cursor e svc sid = Some (idx, n)"
    and run: "jump_to_question e svc sid i = (Success r, svc', w)"
  shows "nv_current_index r = i \<and> 0 \<le> i \<and> i < n \<and> index_stored e svc svc' w sid r n"
proof -
  from c obtain s fb where l: "load_session e svc sid = Some (s, fb)"
    and n: "n = int (length (session_question_ids svc sid s fb))"
    by (auto simp: cursor_def)
  from run l n have "\<not> (i < 0 \<or> i \<ge> n)" "store_index e svc sid s fb i = (Success r, svc', w)"
    by (auto simp: jump_cases Let_def split: if_splits)
  with store_index_stored [OF l this(2)] n show ?thesis by auto
qed

lemma navigate_boundary_fails:
  assumes c: "cursor e svc sid = Some (idx, n)"
  shows "idx \<ge> n - 1 \<Longrightarrow> \<exists>m. navigate_to_question e svc sid ''next'' = (Failure m False, svc, [])"
    "idx \<le> 0 \<Longrightarrow> \<exists>m. navigate_to_question e svc sid ''previous'' = (Failure m False, svc, [])"
    "i < 0 \<or> i \<ge> n \<Longrightarrow> \<exists>m. jump_to_question e svc sid i = (Failure m False, svc, [])"
proof -
  from c obtain s fb where l: "load_session e svc sid = Some (s, fb)"
    and idx: "idx = get_or (current_question_index s) 0"
    and n: "n = int (length (session_question_ids svc sid s fb))"
    by (auto simp: cursor_def)
  show "idx \<ge> n - 1 \<Longrightarrow> \<exists>m. navigate_to_question e svc sid ''next'' = (Failure m False, svc, [])"
    using idx n by (simp add: navigate_cases [OF l] Let_def)
  show "idx \<le> 0 \<Longrightarrow> \<exists>m. navigate_to_question e svc sid ''previous'' = (Failure m False, svc, [])"
    using idx n by (simp add: navigate_cases [OF l] Let_def)
  show "i < 0 \<or> i \<ge> n \<Longrightarrow> \<exists>m. jump_to_question e svc sid i = (Failure m False, svc, [])"
    using n by (auto simp: jump_cases [OF l] Let_def)
qed


text \<open>
  Claim C2. A failed \<^verbatim>\<open>navigate_to_question\<close> or \<^verbatim>\<open>jump_to_question\<close>
  leaves \<^verbatim>\<open>fallback_sessions\<close> as it was and sends nothing to the durable store.
  For a session with current index \<open>idx\<close> and \<open>n\<close> question ids: "next" fails when
  \<open>idx \<ge> n - 1\<close>, "previous" fails when \<open>idx \<le> 0\<close>, a jump fails when its target is
  outside \<open>[0, n)\<close>; a successful jump stores its target, which is inside \<open>[0, n)\<close>;
  and a successful "next" or "previous" from an index inside \<open>[0, n]\<close> stores an index
  inside \<open>[0, n)\<close>.
\<close>

theorem navigation_boundaries:
  "(\<forall>m b svc' w. navigate_to_question e svc sid d = (Failure m b, svc', w) \<longrightarrow>
       svc' = svc \<and> w = []) \<and>
   (\<forall>m b svc' w. jump_to_question e svc sid i = (Failure m b, svc', w) \<longrightarrow>
       svc' = svc \<and> w = []) \<and>
   (cursor e svc sid = Some (idx, n) \<longrightarrow>
      (idx \<ge> n - 1 \<longrightarrow>
         (\<exists>m. navigate_to_question e svc sid ''next'' = (Failure m False, svc, []))) \<and>
      (idx \<le> 0 \<longrightarrow>
         (\<exists>m. navigate_to_question e svc sid ''previous'' = (Failure m False, svc, []))) \<and>
      (i < 0 \<or> i \<ge> n \<longrightarrow>
         (\<exists>m. jump_to_question e svc sid i = (Failure m False, svc, []))) \<and>
      (\<forall>r svc' w. navigate_to_question e svc sid d = (Success r, svc', w) \<and>
           0 \<le> idx \<and> idx \<le> n \<longrightarrow>
         0 \<le> nv_current_index r \<and> nv_current_index r < n \<and>
         index_stored e svc svc' w sid r n) \<and>
      (\<forall>r svc' w. jump_to_question e svc sid i = (Success r, svc', w) \<longrightarrow>
         nv_current_index r = i \<and> 0 \<le> i \<and> i < n \<and> index_stored e svc svc' w sid r n))"
proof -
  have f1: "\<forall>m b svc' w. navigate_to_question e svc sid d = (Failure m b, svc', w) \<longrightarrow>
       svc' = svc \<and> w = []"
    using navigate_Failure_unchanged by blast
  have f2: "\<forall>m b svc' w. jump_to_question e svc sid i = (Failure m b, svc', w) \<longrightarrow>
       svc' = svc \<and> w = []"
    using jump_Failure_unchanged by blast
  have f3: "(idx \<ge> n - 1 \<longrightarrow>
         (\<exists>m. navigate_to_question e svc sid ''next'' = (Failure m False, svc, []))) \<and>
      (idx \<le> 0 \<longrightarrow>
         (\<exists>m. navigate_to_question e svc sid ''previous'' = (Failure m False, svc, []))) \<and>
      (i < 0 \<or> i \<ge> n \<longrightarrow>
         (\<exists>m. jump_to_question e svc sid i = (Failure m False, svc, [])))"
    if "cursor e svc sid = Some (idx, n)"
    using navigate_boundary_fails [OF that] by blast
  have f4: "\<forall>r svc' w. navigate_to_question e svc sid d = (Success r, svc', w) \<and>
           0 \<le> idx \<and> idx \<le> n \<longrightarrow>
         0 \<le> nv_current_index r \<and> nv_current_index r < n \<and>
         index_stored e svc svc' w sid r n"
    if "cursor e svc sid = Some (idx, n)"
    using navigate_Success [OF that] by blast
  have f5: "\<forall>r svc' w. jump_to_question e svc sid i = (Success r, svc', w) \<longrightarrow>
         nv_current_index r = i \<and> 0 \<le> i \<and> i < n \<and> index_stored e svc svc' w sid r n"
    if "cursor e svc sid = Some (idx, n)"
    using jump_Success [OF that] by blast
  from f1 f2 f3 f4 f5 show ?thesis by blast
qed


theorem navigation_boundaries_witness:
  "cursor (store_down []) two_question_service ''u1'' = Some (0, 2) \<and>
   cursor (store_down []) last_question_service ''u1'' = Some (1, 2) \<and>
   (\<exists>m. navigate_to_question (store_down []) two_question_service ''u1'' ''previous'' =
      (Failure m False, two_question_service, [])) \<and>
   (\<exists>m. navigate_to_question (store_down []) last_question_service ''u1'' ''next'' =
      (Failure m False, last_question_service, [])) \<and>
   (\<exists>m. jump_to_question (store_down []) two_question_service ''u1'' 2 =
      (Failure m False, two_question_service, [])) \<and>
   (\<exists>r svc' w. navigate_to_question (store_down []) two_question_service ''u1'' ''next'' =
      (Success r, svc', w) \<and> 0 \<le> nv_current_index r \<and> nv_current_index r < 2 \<and>
      index_stored (store_down []) two_question_service svc' w ''u1'' r 2) \<and>
   (\<exists>r svc' w. jump_to_question (store_down []) two_question_service ''u1'' 1 =
      (Success r, svc', w) \<and> nv_current_index r = 1 \<and>
      index_stored (store_down []) two_question_service svc' w ''u1'' r 2)"
proof -
  have c0: "cursor (store_down []) two_question_service ''u1'' = Some (0, 2)"
    by code_simp
  have c1: "cursor (store_down []) last_question_service ''u1'' = Some (1, 2)"
    by code_simp
  have "succeeded (navigate_to_question (store_down []) two_question_service ''u1'' ''next'')"
    by code_simp
  then obtain r svc' w where nx:
    "navigate_to_question (store_down []) two_question_service ''u1'' ''next'' = (Success r, svc', w)"
    by (rule succeededE)
  have "succeeded (jump_to_question (store_down []) two_question_service ''u1'' 1)"
    by code_simp
  then obtain r2 svc2 w2 where jp:
    "jump_to_question (store_down []) two_question_service ''u1'' 1 = (Success r2, svc2, w2)"
    by (rule succeededE)
  from navigation_boundaries
         [of "store_down []" two_question_service "''u1''" "''next''" 2 0 2] c0 nx
  have p1: "(\<exists>m. navigate_to_question (store_down []) two_question_service ''u1'' ''previous'' =
      (Failure m False, two_question_service, []))"
    and p2: "(\<exists>m. jump_to_question (store_down []) two_question_service ''u1'' 2 =
      (Failure m False, two_question_service, []))"
    and p3: "0 \<le> nv_current_index r \<and> nv_current_index r < 2 \<and>
      index_stored (store_down []) two_question_service svc' w ''u1'' r 2"
    by simp_all
  from navigation_boundaries
         [of "store_down []" two_question_service "''u1''" "''next''" 1 0 2] c0 jp
  have p4: "nv_current_index r2 = 1 \<and>
      index_stored (store_down []) two_question_service svc2 w2 ''u1'' r2 2"
    by simp
  from navigation_boundaries
         [of "store_down []" last_question_service "''u1''" "''next''" 0 1 2] c1
  have p5: "(\<exists>m. navigate_to_question (store_down []) last_question_service ''u1'' ''next'' =
      (Failure m False, last_question_service, []))"
    by simp
  from c0 c1 p1 p2 p3 p4 p5 nx jp show ?thesis by blast
qed

section \<open>A session whose store is down\<close>

lemma get_current_question_store_down:
  assumes q: "questions_reply e = Raises msg"
  shows "\<not> succeeded (get_current_question e svc sid)"
proof -
  have n: "get_question_with_metadata e svc k = None" for k
    using q by (simp add: get_question_with_metadata_def)
  show ?thesis
    by (auto simp: get_current_question_def succeeded_def Let_def n
          split: option.splits prod.splits sum.splits)
qed

lemma get_current_question_no_store:
  assumes q: "\<not> supabase svc"
  shows "\<not> succeeded (get_current_question e svc sid)"
proof -
  have n: "get_question_with_metadata e svc k = None" for k
    using q by (simp add: get_question_with_metadata_def)
  show ?thesis
    by (auto simp: get_current_question_def succeeded_def Let_def n
          split: option.splits prod.splits sum.splits)
qed

text \<open>
  Claim C5, at a session whose every store call raises. \<^verbatim>\<open>create_session\<close> with
  one resolved question succeeds in the fallback under the fresh id, and
  \<^verbatim>\<open>submit_answer\<close> and \<^verbatim>\<open>get_session_progress\<close> succeed on it; but
  \<^verbatim>\<open>get_current_question\<close> answers "Question not found": it looks the question up
  in the store only, and not in the session's \<^verbatim>\<open>question_bank\<close> as
  \<^verbatim>\<open>submit_answer\<close> does.
\<close>

theorem current_question_fails_when_store_down:
  "created_in_fallback
     (create_session (store_down [question_A]) service_0 ''user'' ''practice'' no_filter None)
     = Some ''u1'' \<and>
   map_of (fallback_sessions created_service) ''u1'' \<noteq> None \<and>
   error_of (get_current_question (store_down []) created_service ''u1'')
     = Some ''Question not found'' \<and>
   succeeded (submit_answer (store_down []) created_service ''u1'' ''q1'' ''a'' 5) \<and>
   succeeded (get_session_progress (store_down []) answered_service ''u1'')"
  by code_simp

section \<open>The index stays in range\<close>

text \<open>
  Whatever the outside world answers, no operation takes an entry of
  \<^verbatim>\<open>fallback_sessions\<close> out of the range of its question ids: the hypothesis of
  the navigation theorem on the index holds for every session loaded from the fallback.
\<close>

lemma in_range_lookup:
  "fallback_in_range svc \<Longrightarrow> map_of (fallback_sessions svc) k = Some s \<Longrightarrow> index_in_range s"
  by (simp add: fallback_in_range_def)

lemma in_range_update:
  assumes "fallback_in_range svc" "index_in_range s"
    and "fallback_sessions svc' = AList.update k s (fallback_sessions svc)"
  shows "fallback_in_range svc'"
  using assms by (simp add: fallback_in_range_def update_conv')

lemma in_range_same:
  "fallback_in_range svc \<Longrightarrow> fallback_sessions svc' = fallback_sessions svc \<Longrightarrow>
   fallback_in_range svc'"
  by (simp add: fallback_in_range_def)

lemma index_in_range_fields:
  "current_question_index s' = current_question_index s \<Longrightarrow> question_ids s' = question_ids s \<Longrightarrow>
   index_in_range s \<Longrightarrow> index_in_range s'"
  by (simp add: index_in_range_def)

lemma create_session_in_range:
  assumes "fallback_in_range svc"
  shows "fallback_in_range (after (create_session e svc uid name f limit))"
proof -
  have new1: "index_in_range (empty_session\<lparr>s_id := Some sid, question_ids := Some qids,
                            question_bank := Some bank\<rparr>)" for sid qids bank
    by (simp add: index_in_range_def empty_session_def get_or_def)
  have new2: "index_in_range
     ((session_data e uid name f questions)\<lparr>s_id := Some sid, time_limit := limit,
        question_ids := Some qids,
        questions_correct := Some 0, questions_incorrect := Some 0,
        questions_skipped := Some 0, status := Some ACTIVE,
        responses := Some [], question_bank := Some bank\<rparr>)" for sid qids bank questions
    by (simp add: index_in_range_def session_data_def empty_session_def get_or_def)
  show ?thesis
  proof (cases "get_filtered_questions e svc f")
    case (Inl msg)
    with assms show ?thesis by (simp add: create_session_def after_def)
  next
    case (Inr resolved)
    show ?thesis
    proof (cases "resolved = []")
      case True
      with Inr assms show ?thesis by (simp add: create_session_def after_def)
    next
      case False
      with Inr assms show ?thesis
        by (auto simp: create_session_def after_def Let_def
              intro: in_range_update [OF _ new1] in_range_update [OF _ new2]
              split: option.splits prod.splits)
    qed
  qed
qed


lemma get_current_question_in_range:
  assumes inv: "fallback_in_range svc"
  shows "fallback_in_range (after (get_current_question e svc sid))"
proof (cases "load_session e svc sid")
  case None
  with inv show ?thesis by (simp add: get_current_question_def after_def)
next
  case (Some a)
  obtain s fb where a: "a = (s, fb)" by (cases a)
  have keep: "fallback_in_range
      (svc\<lparr>fallback_sessions := AList.update sid (s\<lparr>last_activity := t\<rparr>) (fallback_sessions svc)\<rparr>)"
    if "fb" for t
  proof -
    from Some a that have "map_of (fallback_sessions svc) sid = Some s"
      by (auto dest: load_session_fallback(1))
    from in_range_lookup [OF inv this] have "index_in_range (s\<lparr>last_activity := t\<rparr>)"
      by (simp add: index_in_range_def)
    from in_range_update [OF inv this] show ?thesis by simp
  qed
  from Some a inv keep show ?thesis
    by (auto simp: get_current_question_def after_def Let_def
          split: option.splits sum.splits if_splits)
qed

lemma stored_session_in_range:
  assumes "case map_of (fallback_sessions svc) sid of None \<Rightarrow> True | Some s \<Rightarrow> index_in_range s"
  shows "index_in_range (stored_session e svc sid qid a t q)"
  using assms
  by (cases "map_of (fallback_sessions svc) sid")
     (simp_all add: stored_session_def Let_def index_in_range_def empty_session_def get_or_def)

lemma submit_answer_in_range:
  assumes inv: "fallback_in_range svc"
  shows "fallback_in_range (after (submit_answer e svc sid qid a t))"
proof (cases "resolve_question e svc sid qid")
  case None
  from submit_answer_Failure [OF None, of a t] inv show ?thesis by (simp add: after_def)
next
  case (Some q)
  from submit_answer_Success [OF Some, of a t] obtain r svc' w where
    run: "submit_answer e svc sid qid a t = (Success r, svc', w)" and
    here: "map_of (fallback_sessions svc') sid = Some (stored_session e svc sid qid a t q)" and
    there: "\<forall>k. k \<noteq> sid \<longrightarrow> map_of (fallback_sessions svc') k = map_of (fallback_sessions svc) k"
    by blast
  have "case map_of (fallback_sessions svc) sid of None \<Rightarrow> True | Some s \<Rightarrow> index_in_range s"
    using inv by (auto simp: fallback_in_range_def split: option.splits)
  from stored_session_in_range [OF this] have s: "index_in_range (stored_session e svc sid qid a t q)" .
  have "fallback_in_range svc'"
    unfolding fallback_in_range_def
  proof (intro allI impI)
    fix k s' assume m: "map_of (fallback_sessions svc') k = Some s'"
    show "index_in_range s'"
    proof (cases "k = sid")
      case True
      with m here s show ?thesis by simp
    next
      case False
      with m there inv show ?thesis by (simp add: fallback_in_range_def)
    qed
  qed
  with run show ?thesis by (simp add: after_def)
qed

lemma store_index_in_range:
  assumes inv: "fallback_in_range svc"
    and i: "0 \<le> i" "i \<le> int (length (get_or (question_ids s) []))"
  shows "fallback_in_range (after (store_index e svc sid s fb i))"
proof (cases fb)
  case True
  have "index_in_range (s\<lparr>current_question_index := Some i, last_activity := Some (now e 0)\<rparr>)"
    using i by (simp add: index_in_range_def get_or_def)
  from in_range_update [OF inv this] True show ?thesis
    by (simp add: store_index_def after_def)
next
  case False
  with inv show ?thesis by (simp add: store_index_def after_def)
qed

lemma navigate_in_range:
  assumes inv: "fallback_in_range svc"
  shows "fallback_in_range (after (navigate_to_question e svc sid d))"
proof (cases "load_session e svc sid")
  case None
  with inv show ?thesis by (simp add: navigate_to_question_def after_def)
next
  case (Some a)
  obtain s fb where a: "a = (s, fb)" by (cases a)
  with Some have l: "load_session e svc sid = Some (s, fb)" by simp
  have same: "fallback_in_range (after (x, svc, y))" for x :: "nav_result outcome" and y
    using inv by (simp add: after_def)
  show ?thesis
  proof (cases fb)
    case False
    have "fallback_in_range (after (store_index e svc sid s False j))" for j
      using inv by (simp add: store_index_def after_def)
    with l False same show ?thesis
      by (simp add: navigate_cases [OF l] Let_def)
  next
    case True
    with l have "map_of (fallback_sessions svc) sid = Some s"
      by (auto dest: load_session_fallback(1))
    from in_range_lookup [OF inv this] have r: "index_in_range s" .
    let ?idx = "get_or (current_question_index s) 0"
    let ?n = "int (length (get_or (question_ids s) []))"
    from r have b: "0 \<le> ?idx" "?idx \<le> ?n" by (simp_all add: index_in_range_def)
    have q: "session_question_ids svc sid s True = get_or (question_ids s) []"
      by (simp add: session_question_ids_def)
    have up: "\<not> ?idx \<ge> ?n - 1 \<Longrightarrow> fallback_in_range (after (store_index e svc sid s True (?idx + 1)))"
      using b by (intro store_index_in_range [OF inv]) auto
    have down: "\<not> ?idx \<le> 0 \<Longrightarrow> fallback_in_range (after (store_index e svc sid s True (?idx - 1)))"
      using b by (intro store_index_in_range [OF inv]) auto
    from True same up down q show ?thesis
      by (simp add: navigate_cases [OF l] Let_def)
  qed
qed

lemma jump_in_range:
  assumes inv: "fallback_in_range svc"
  shows "fallback_in_range (after (jump_to_question e svc sid i))"
proof (cases "load_session e svc sid")
  case None
  with inv show ?thesis by (simp add: jump_to_question_def after_def)
next
  case (Some a)
  obtain s fb where a: "a = (s, fb)" by (cases a)
  with Some have l: "load_session e svc sid = Some (s, fb)" by simp
  have same: "fallback_in_range (after (x, svc, y))" for x :: "nav_result outcome" and y
    using inv by (simp add: after_def)
  show ?thesis
  proof (cases fb)
    case False
    have "fallback_in_range (after (store_index e svc sid s False j))" for j
      using inv by (simp add: store_index_def after_def)
    with l False same show ?thesis
      by (simp add: jump_cases [OF l] Let_def)
  next
    case True
    have q: "session_question_ids svc sid s True = get_or (question_ids s) []"
      by (simp add: session_question_ids_def)
    have ok: "\<not> (i < 0 \<or> i \<ge> int (length (get_or (question_ids s) []))) \<Longrightarrow>
        fallback_in_range (after (store_index e svc sid s True i))"
      by (intro store_index_in_range [OF inv]) auto
    from True same ok q show ?thesis
      by (simp add: jump_cases [OF l] Let_def)
  qed
qed

lemma progress_in_range:
  assumes inv: "fallback_in_range svc"
  shows "fallback_in_range (after (get_session_progress e svc sid))"
  using inv
  by (cases "load_session e svc sid")
     (auto simp: get_session_progress_def after_def Let_def)

lemma set_active_in_range:
  assumes inv: "fallback_in_range svc"
  shows "fallback_in_range (after (set_active flag st msg e svc sid))"
proof -
  obtain r svc' w where run: "set_active flag st msg e svc sid = (r, svc', w)"
    by (cases "set_active flag st msg e svc sid")
  from set_active_frame [OF run] have
    rel: "\<And>k. rel_option same_but_activity (map_of (fallback_sessions svc) k)
                 (map_of (fallback_sessions svc') k)"
    by blast
  have "fallback_in_range svc'"
    unfolding fallback_in_range_def
  proof (intro allI impI)
    fix k s' assume m: "map_of (fallback_sessions svc') k = Some s'"
    with rel [of k] obtain s where s: "map_of (fallback_sessions svc) k = Some s"
      "same_but_activity s s'"
      by (cases "map_of (fallback_sessions svc) k") auto
    from same_but_activity_fields [OF s(2)] in_range_lookup [OF inv s(1)]
    show "index_in_range s'" by (simp add: index_in_range_def)
  qed
  with run show ?thesis by (simp add: after_def)
qed

lemma reachable_in_range: "reachable svc \<Longrightarrow> fallback_in_range svc"
proof (induction rule: reachable.induct)
  case (start svc)
  then show ?case by (simp add: fallback_in_range_def)
qed (simp_all add: create_session_in_range get_current_question_in_range
       submit_answer_in_range navigate_in_range jump_in_range progress_in_range
       set_active_in_range pause_session_def resume_session_def)

lemma reachable_cursor:
  assumes "reachable svc" "load_session e svc sid = Some (s, True)"
  shows "\<exists>idx n. cursor e svc sid = Some (idx, n) \<and> 0 \<le> idx \<and> idx \<le> n"
proof -
  from assms(2) have "map_of (fallback_sessions svc) sid = Some s"
    by (rule load_session_fallback(1))
  from in_range_lookup [OF reachable_in_range [OF assms(1)] this] assms(2)
  show ?thesis
    by (simp add: cursor_def index_in_range_def session_question_ids_def)
qed

end
